theory Spec2Isabelle
  imports Complex_Main
begin

section \<open>Face lock controller: data model\<close>

text \<open>
  The development embeds the enrollment session (\<open>register_face\<close>), the verification
  function (\<open>verify_face\<close>), the device link (\<open>send_serial_command\<close>), the reset button
  of \<open>on_mouse\<close> and the verification cycle of \<open>main\<close>.

  What the program obtains from outside is an explicit input of the model:
  \<^item> the wall clock: each \<open>time.time()\<close> the code reads is a field of the input, a
    \<open>real\<close> number of seconds (rounding of the float arithmetic is not modelled);
  \<^item> the vision provider: a frame is represented by what \<open>detectMultiScale\<close> returns
    on it, every box paired with the crop \<open>frame[y:y+h, x:x+w]\<close>; a crop carries its
    shape, the value of \<open>np.var\<close> and the answer of \<open>DeepFace.represent\<close>;
  \<^item> the similarity function \<open>cosine_similarity\<close> of the library is a parameter;
  \<^item> the serial port: the outcome of one write and poll is an input;
  \<^item> the directory \<open>SAVED_NAMES_PATH\<close>: an association list from entry names to
    entries. Directory operations do what they say (\<open>rmtree\<close> removes, \<open>listdir\<close>
    lists); the failures the code handles by a branch of its own are inputs.
  Calls to \<open>print\<close> and the drawing of the main window leave no trace in the model; an
  exception of the display calls in the capture loop is an input.
\<close>

subsection \<open>Configuration constants\<close>

definition REGISTRATION_DURATION :: real where
  "REGISTRATION_DURATION = 7"

definition UPDATE_INTERVAL :: real where
  "UPDATE_INTERVAL = 1"

definition CONFIDENCE_THRESHOLD :: real where
  "CONFIDENCE_THRESHOLD = 0.4"

definition MAX_REGISTRATION_IMAGES :: nat where
  "MAX_REGISTRATION_IMAGES = 10"

definition MIN_REGISTRATION_FACES :: nat where
  "MIN_REGISTRATION_FACES = 3"

subsection \<open>Images, frames and the vision provider\<close>

type_synonym embedding = "real list"

type_synonym box = "int \<times> int \<times> int \<times> int"

text \<open>
  A cropped face image: \<open>rows\<close> and \<open>cols\<close> are \<open>img.shape[0]\<close> and \<open>img.shape[1]\<close>,
  \<open>variance\<close> is \<open>np.var(img)\<close>, and \<open>represent\<close> is the embedding that
  \<open>DeepFace.represent\<close> returns for the image (\<open>None\<close> when the call raises).
\<close>

record image =
  rows :: nat
  cols :: nat
  variance :: real
  represent :: "embedding option"

text \<open>\<open>img.size\<close> is compared with zero only; it is zero iff a dimension is zero.\<close>

definition img_size :: "image \<Rightarrow> nat" where
  "img_size img = rows img * cols img"

definition is_valid_face :: "image \<Rightarrow> bool" where
  "is_valid_face img =
     (if img_size img = 0 then False
      else if rows img < 50 \<or> cols img < 50 then False
      else 10 < variance img \<and> variance img < 50000)"

text \<open>
  An image smaller than 80 by 80 is resized before the call of the library;
  \<open>represent\<close> is the answer for the image as it is passed.
\<close>

definition extract_face_embedding :: "image \<Rightarrow> embedding option" where
  "extract_face_embedding img =
     (if img_size img = 0 then None else represent img)"

text \<open>
  A frame, as the detector sees it: \<open>detections\<close> is the result of
  \<open>face_cascade.detectMultiScale\<close>, each box with its crop; \<open>None\<close> when the detector
  raises.
\<close>

record frame =
  detections :: "(box \<times> image) list option"

subsection \<open>The directory of saved identities\<close>

datatype pkl = Embeddings "embedding list" | Corrupt

record folder =
  images :: "image list"
  embeddings_pkl :: "pkl option"

datatype entry = Directory folder | PlainFile

type_synonym fs = "(string \<times> entry) list"

fun is_dir :: "entry \<Rightarrow> bool" where
  "is_dir (Directory d) = True"
| "is_dir PlainFile = False"

text \<open>
  \<open>os.makedirs(path, exist_ok=True)\<close>: nothing to do for an existing directory, an
  error (\<open>None\<close>) when the name is taken by a plain file, a new empty directory
  otherwise.
\<close>

definition makedirs :: "string \<Rightarrow> fs \<Rightarrow> fs option" where
  "makedirs name fs0 =
     (case map_of fs0 name of
        Some (Directory d) \<Rightarrow> Some fs0
      | Some PlainFile \<Rightarrow> None
      | None \<Rightarrow> Some (fs0 @ [(name, Directory \<lparr>images = [], embeddings_pkl = None\<rparr>)]))"

text \<open>\<open>shutil.rmtree(path, ignore_errors=True)\<close>: removes a directory, leaves a plain file.\<close>

definition rmtree :: "string \<Rightarrow> fs \<Rightarrow> fs" where
  "rmtree name fs0 = filter (\<lambda>(n, e). \<not> (n = name \<and> is_dir e)) fs0"

text \<open>\<open>cv2.imwrite\<close> of a crop into a directory (a new file with a fresh uuid name).\<close>

fun add_image :: "image \<Rightarrow> entry \<Rightarrow> entry" where
  "add_image img (Directory d) = Directory (d\<lparr>images := images d @ [img]\<rparr>)"
| "add_image img PlainFile = PlainFile"

definition imwrite :: "string \<Rightarrow> image \<Rightarrow> fs \<Rightarrow> fs" where
  "imwrite name img fs0 = map (\<lambda>(n, e). if n = name then (n, add_image img e) else (n, e)) fs0"

text \<open>\<open>pickle.dump(embeddings, f)\<close> into \<open>embeddings.pkl\<close> of a directory.\<close>

fun set_pkl :: "embedding list \<Rightarrow> entry \<Rightarrow> entry" where
  "set_pkl embs (Directory d) = Directory (d\<lparr>embeddings_pkl := Some (Embeddings embs)\<rparr>)"
| "set_pkl embs PlainFile = PlainFile"

definition pickle_dump :: "string \<Rightarrow> embedding list \<Rightarrow> fs \<Rightarrow> fs" where
  "pickle_dump name embs fs0 =
     map (\<lambda>(n, e). if n = name then (n, set_pkl embs e) else (n, e)) fs0"

subsection \<open>Decimal rendering of the person counter\<close>

fun str_nat :: "nat \<Rightarrow> string" where
  "str_nat n =
     (if n < 10 then [''0123456789'' ! n]
      else str_nat (n div 10) @ [''0123456789'' ! (n mod 10)])"

declare str_nat.simps [simp del]

definition str :: "int \<Rightarrow> string" where
  "str i = (if i < 0 then ''-'' @ str_nat (nat (- i)) else str_nat (nat i))"

subsection \<open>Global state\<close>

text \<open>Each constructor stands for one message template assigned to \<open>status_text\<close>.\<close>

datatype status =
    System_Ready
  | Total_registered nat
  | Capturing nat
  | Successfully_registered string
  | Registration_failed_save_error
  | Registration_failed_only nat
  | Registration_failed_error_occurred
  | Please_show_only_one_face
  | Face_not_clear_enough
  | Could_not_process_face
  | Welcome "string option" real
  | Access_denied real
  | Verification_error_occurred
  | System_reset_completed

datatype button = saved_faces | register_face_button | reset | quit

text \<open>
  The module's globals. \<open>arduino\<close> tells whether the serial handle is set;
  \<open>saved_names\<close> is the content of \<open>SAVED_NAMES_PATH\<close>; \<open>serial_out\<close> lists the lines
  written to the port. \<open>link_calls\<close> is a history variable: the argument of every call
  of \<open>send_serial_command\<close>, in order. No branch of the model reads it.
\<close>

record sys_state =
  arduino :: bool
  status_text :: status
  is_unlocked :: bool
  person_counter :: int
  name_map :: "int \<rightharpoonup> string"
  button_clicked :: "button option"
  last_lock_state :: "bool option"
  registration_in_progress :: bool
  saved_names :: fs
  serial_out :: "string list"
  link_calls :: "string list"

subsection \<open>Device link\<close>

text \<open>
  What the port does during one call. The write of the command raises, or the command
  is written and the loop polls \<open>arduino.in_waiting\<close>; the list holds the polls made
  before the second is over: nothing waiting, a line waiting that \<open>readline\<close> returns,
  or a line waiting whose reading raises.
\<close>

datatype poll = Nothing_waiting | Line_waiting | Read_raises

datatype link_reply = Write_error | Written "poll list"

text \<open>
  The polling loop: the first line that arrives is the confirmation, whatever it says;
  an exception is caught by the \<open>except\<close> branch, which returns \<open>False\<close>; when the second
  is over the function returns \<open>False\<close>.
\<close>

fun wait_for_confirmation :: "poll list \<Rightarrow> bool" where
  "wait_for_confirmation [] = False"
| "wait_for_confirmation (Nothing_waiting # polls) = wait_for_confirmation polls"
| "wait_for_confirmation (Line_waiting # polls) = True"
| "wait_for_confirmation (Read_raises # polls) = False"

definition send_serial_command :: "string \<Rightarrow> link_reply \<Rightarrow> sys_state \<Rightarrow> bool \<times> sys_state" where
  "send_serial_command command reply s =
     (let s1 = s\<lparr>link_calls := link_calls s @ [command]\<rparr>;
          written = s1\<lparr>serial_out := serial_out s1 @ [command @ ''\<newline>'']\<rparr>
      in if arduino s then
           (case reply of
              Write_error \<Rightarrow> (False, s1)
            | Written polls \<Rightarrow> (wait_for_confirmation polls, written))
         else (False, s1))"

definition get_face_count :: "sys_state \<Rightarrow> nat" where
  "get_face_count s = length (filter (\<lambda>(d, e). is_dir e) (saved_names s))"

subsection \<open>Verification\<close>

text \<open>
  The similarity function is a parameter: \<open>sim a b\<close> is the score
  \<open>cosine_similarity([a], [b])[0][0]\<close>, or \<open>None\<close> when the library raises (vectors of
  different lengths).

  The inner loop over the embeddings of one folder. It sits in a \<open>try\<close>: when the
  similarity raises, the rest of the folder is skipped and the best pair found so far
  is kept.
\<close>

fun compare_embeddings ::
  "(embedding \<Rightarrow> embedding \<Rightarrow> real option) \<Rightarrow> embedding \<Rightarrow> string \<Rightarrow> embedding list \<Rightarrow>
     real \<times> string option \<Rightarrow> real \<times> string option" where
  "compare_embeddings sim test_emb folder [] best = best"
| "compare_embeddings sim test_emb folder (emb # embs) (best_score, best_id) =
     (case sim test_emb emb of
        None \<Rightarrow> (best_score, best_id)
      | Some score \<Rightarrow>
          compare_embeddings sim test_emb folder embs
            (if score > best_score then (score, Some folder) else (best_score, best_id)))"

text \<open>
  The loop over \<open>os.listdir(SAVED_NAMES_PATH)\<close>: entries that are no directory, that
  hold no \<open>embeddings.pkl\<close>, or whose file does not load are passed over.
\<close>

fun scan_folders ::
  "(embedding \<Rightarrow> embedding \<Rightarrow> real option) \<Rightarrow> embedding \<Rightarrow> fs \<Rightarrow>
     real \<times> string option \<Rightarrow> real \<times> string option" where
  "scan_folders sim test_emb [] best = best"
| "scan_folders sim test_emb ((folder, e) # rest) best =
     (case e of
        PlainFile \<Rightarrow> scan_folders sim test_emb rest best
      | Directory d \<Rightarrow>
          (case embeddings_pkl d of
             None \<Rightarrow> scan_folders sim test_emb rest best
           | Some Corrupt \<Rightarrow> scan_folders sim test_emb rest best
           | Some (Embeddings saved_embs) \<Rightarrow>
               scan_folders sim test_emb rest
                 (compare_embeddings sim test_emb folder saved_embs best)))"

text \<open>
  \<open>verify_face\<close> returns the triple (decision, face box, confidence) and assigns
  \<open>status_text\<close>. The decision \<open>True\<close> is ACCEPT, \<open>False\<close> is REJECT; \<open>None\<close> in
  the second and third place is Python's \<open>None\<close>.
\<close>

definition verify_face ::
  "(embedding \<Rightarrow> embedding \<Rightarrow> real option) \<Rightarrow> frame \<Rightarrow> sys_state \<Rightarrow>
     (bool \<times> box option \<times> real option) \<times> sys_state" where
  "verify_face sim fr s =
     (case detections fr of
        None \<Rightarrow> ((False, None, None), s\<lparr>status_text := Verification_error_occurred\<rparr>)
      | Some faces \<Rightarrow>
          (case faces of
             [(b, face_img)] \<Rightarrow>
               if \<not> is_valid_face face_img then
                 ((False, None, None), s\<lparr>status_text := Face_not_clear_enough\<rparr>)
               else
                 (case extract_face_embedding face_img of
                    None \<Rightarrow> ((False, Some b, Some 0), s\<lparr>status_text := Could_not_process_face\<rparr>)
                  | Some test_emb \<Rightarrow>
                      (let (best_score, best_id) =
                             scan_folders sim test_emb (saved_names s) (0, None);
                           confidence_percent = best_score * 100
                       in if best_score > CONFIDENCE_THRESHOLD then
                            ((True, Some b, Some confidence_percent),
                             s\<lparr>status_text := Welcome best_id confidence_percent\<rparr>)
                          else
                            ((False, Some b, Some confidence_percent),
                             s\<lparr>status_text := Access_denied confidence_percent\<rparr>)))
           | _ \<Rightarrow> ((False, None, None), s\<lparr>status_text := Please_show_only_one_face\<rparr>)))"

subsection \<open>The verification cycle of the main loop\<close>

text \<open>The locals of \<open>main\<close> that live across iterations.\<close>

record main_locals =
  last_update_time :: real
  face_box :: "box option"
  confidence :: "real option"

text \<open>
  The body of the periodic branch of \<open>main\<close>: verify, send a command when the decision
  differs from \<open>last_lock_state\<close> (initially \<open>None\<close>, which differs from both
  decisions), and record the decision. The result of \<open>send_serial_command\<close> is dropped,
  as in the source.
\<close>

definition verification_cycle ::
  "(embedding \<Rightarrow> embedding \<Rightarrow> real option) \<Rightarrow> frame \<Rightarrow> link_reply \<Rightarrow> real \<Rightarrow>
     main_locals \<times> sys_state \<Rightarrow> main_locals \<times> sys_state" where
  "verification_cycle sim fr reply current_time ls =
     (let (loc, s) = ls;
          ((unl, fb, conf), s1) = verify_face sim fr s;
          s2 = s1\<lparr>is_unlocked := unl\<rparr>;
          s3 = (if last_lock_state s2 \<noteq> Some (is_unlocked s2) then
                  (let command = (if is_unlocked s2 then ''lock_off'' else ''lock_on'');
                       (ok, s') = send_serial_command command reply s2
                   in s'\<lparr>last_lock_state := Some (is_unlocked s')\<rparr>)
                else s2)
      in (loc\<lparr>last_update_time := current_time, face_box := fb, confidence := conf\<rparr>,
          s3\<lparr>button_clicked := None\<rparr>))"

text \<open>
  One iteration of \<open>while True\<close> in \<open>main\<close>, up to the drawing: \<open>cap_result\<close> is the
  frame of \<open>cap.read()\<close>, \<open>None\<close> when \<open>ret\<close> is false.
\<close>

definition main_iteration ::
  "(embedding \<Rightarrow> embedding \<Rightarrow> real option) \<Rightarrow> frame option \<Rightarrow> link_reply \<Rightarrow> real \<Rightarrow>
     main_locals \<times> sys_state \<Rightarrow> main_locals \<times> sys_state" where
  "main_iteration sim cap_result reply current_time ls =
     (case cap_result of
        None \<Rightarrow> ls
      | Some fr \<Rightarrow>
          if current_time - last_update_time (fst ls) > UPDATE_INTERVAL
             \<and> \<not> registration_in_progress (snd ls)
          then verification_cycle sim fr reply current_time ls
          else ls)"

subsection \<open>Mouse clicks\<close>

definition is_button_clicked :: "int \<Rightarrow> int \<Rightarrow> button option" where
  "is_button_clicked x y =
     (if 950 \<le> x \<and> x \<le> 1150 then
        (if 50 \<le> y \<and> y \<le> 100 then Some saved_faces
         else if 120 \<le> y \<and> y \<le> 170 then Some register_face_button
         else if 190 \<le> y \<and> y \<le> 240 then Some reset
         else if 500 \<le> y \<and> y \<le> 550 then Some quit
         else None)
      else None)"

text \<open>
  The \<open>reset\<close> branch of \<open>on_mouse\<close>: the directory is removed with all its entries and
  made again, empty; the counter goes back to 1. No call of the \<open>try\<close> block raises in
  this model (\<open>rmtree\<close> ignores errors, \<open>makedirs\<close> finds the name free,
  \<open>send_serial_command\<close> catches its own exceptions), so its \<open>except\<close> branch has no
  counterpart here.
\<close>

definition reset_all :: "link_reply \<Rightarrow> sys_state \<Rightarrow> sys_state" where
  "reset_all reply s =
     (let s1 = s\<lparr>saved_names := [], person_counter := 1, name_map := Map.empty,
                 is_unlocked := False, status_text := System_reset_completed\<rparr>
      in snd (send_serial_command ''reset'' reply s1))"

text \<open>
  \<open>on_mouse\<close> for a click at \<open>(x, y)\<close>; \<open>lbuttondown\<close> is
  \<open>event == cv2.EVENT_LBUTTONDOWN\<close>. The \<open>register_face\<close> button starts the enrollment
  thread, whose run is the function \<open>register_face\<close> below; the \<open>quit\<close> button sends
  \<open>lock\<close>, after which the process exits.
\<close>

definition on_mouse :: "bool \<Rightarrow> int \<Rightarrow> int \<Rightarrow> link_reply \<Rightarrow> sys_state \<Rightarrow> sys_state" where
  "on_mouse lbuttondown x y reply s =
     (if lbuttondown \<and> \<not> registration_in_progress s then
        (let s1 = s\<lparr>button_clicked := is_button_clicked x y\<rparr>
         in case button_clicked s1 of
              Some saved_faces \<Rightarrow> s1\<lparr>status_text := Total_registered (get_face_count s1)\<rparr>
            | Some register_face_button \<Rightarrow> s1
            | Some reset \<Rightarrow> reset_all reply s1
            | Some quit \<Rightarrow> snd (send_serial_command ''lock'' reply s1)
            | None \<Rightarrow> s1)
      else s)"

subsection \<open>Enrollment\<close>

text \<open>
  One iteration of the capture loop, as the environment presents it: \<open>now\<close> is the
  clock read in the loop condition, \<open>cap_read\<close> the frame of \<open>cap.read()\<close> (\<open>None\<close> when
  \<open>ret\<close> is false), \<open>t_check\<close> the clock read in the spacing test, \<open>t_capture\<close> the
  clock assigned to \<open>last_capture\<close>, \<open>key_esc\<close> whether \<open>waitKey\<close> reports ESC, and
  \<open>raises\<close> whether a call of the display part at the end of the body raises.
\<close>

record tick =
  now :: real
  cap_read :: "frame option"
  t_check :: real
  t_capture :: real
  key_esc :: bool
  raises :: bool

text \<open>
  The locals of one session. \<open>captures\<close> is a history variable: for every accepted
  sample, in order, the value assigned to \<open>last_capture\<close> and the embedding appended.
  No branch reads it.
\<close>

record session =
  faces :: "image list"
  embeddings :: "embedding list"
  last_capture :: real
  captures :: "(real \<times> embedding) list"

datatype body_end = Raised sys_state | Next session sys_state

text \<open>The loop body from the detection to the key test, for a frame that was read.\<close>

definition capture_body :: "string \<Rightarrow> tick \<Rightarrow> frame \<Rightarrow> session \<Rightarrow> sys_state \<Rightarrow> body_end" where
  "capture_body user_dir tk fr se s =
     (case detections fr of
        None \<Rightarrow> Raised s
      | Some faces_detected \<Rightarrow>
          (let (se1, s1) =
                 (case faces_detected of
                    [(b, face_img)] \<Rightarrow>
                      if is_valid_face face_img \<and> t_check tk - last_capture se > 0.5 then
                        (case extract_face_embedding face_img of
                           None \<Rightarrow> (se, s)
                         | Some emb \<Rightarrow>
                             (se\<lparr>embeddings := embeddings se @ [emb],
                                 faces := faces se @ [face_img],
                                 last_capture := t_capture tk,
                                 captures := captures se @ [(t_capture tk, emb)]\<rparr>,
                              s\<lparr>saved_names := imwrite user_dir face_img (saved_names s),
                                status_text := Capturing (length (faces se) + 1)\<rparr>))
                      else (se, s)
                  | _ \<Rightarrow> (se, s))
           in if raises tk then Raised s1 else Next se1 s1))"

datatype loop_end = Exception sys_state | Completed session sys_state

text \<open>
  The \<open>while\<close> loop. The list holds the iterations the environment offers; the loop
  ends by its condition (time cap or sample cap), by ESC, or by an exception. When the
  list is used up while the condition still holds, the run is not determined by the
  input and the result is \<open>None\<close>.
\<close>

fun capture_loop :: "real \<Rightarrow> string \<Rightarrow> tick list \<Rightarrow> session \<Rightarrow> sys_state \<Rightarrow> loop_end option" where
  "capture_loop start_time user_dir [] se s = None"
| "capture_loop start_time user_dir (tk # tks) se s =
     (if now tk - start_time < REGISTRATION_DURATION
         \<and> length (faces se) < MAX_REGISTRATION_IMAGES
      then
        (case cap_read tk of
           None \<Rightarrow> capture_loop start_time user_dir tks se s
         | Some fr \<Rightarrow>
             (case capture_body user_dir tk fr se s of
                Raised s1 \<Rightarrow> Some (Exception s1)
              | Next se1 s1 \<Rightarrow>
                  if key_esc tk then Some (Completed se1 s1)
                  else capture_loop start_time user_dir tks se1 s1))
      else Some (Completed se s))"

text \<open>
  The input of one call of \<open>register_face\<close>: the clock at the start, the iterations,
  whether \<open>cv2.destroyWindow\<close> raises after the loop (it does for a window that does not
  exist), whether writing \<open>embeddings.pkl\<close> succeeds, and what the port does with
  \<open>unlock\<close>.
\<close>

record enroll_env =
  start :: real
  ticks :: "tick list"
  destroy_raises :: bool
  dump_ok :: bool
  unlock_reply :: link_reply

text \<open>
  The part of \<open>register_face\<close> after the window is closed: the test of the sample
  count, the commit with its own \<open>try\<close>, the two failure branches, and \<open>finally\<close>.
\<close>

definition finish_registration ::
  "enroll_env \<Rightarrow> string \<Rightarrow> string \<Rightarrow> session \<Rightarrow> sys_state \<Rightarrow> string option \<times> sys_state" where
  "finish_registration env user_id user_dir se s =
     (if length (faces se) \<ge> MIN_REGISTRATION_FACES then
        (if dump_ok env then
           (let s1 = s\<lparr>saved_names := pickle_dump user_dir (embeddings se) (saved_names s)\<rparr>;
                s2 = s1\<lparr>name_map := (name_map s1)(person_counter s1 \<mapsto> user_id)\<rparr>;
                s3 = s2\<lparr>person_counter := person_counter s2 + 1\<rparr>;
                s4 = s3\<lparr>status_text := Successfully_registered user_id\<rparr>;
                s5 = snd (send_serial_command ''unlock'' (unlock_reply env) s4)
            in (Some user_id, s5\<lparr>registration_in_progress := False\<rparr>))
         else
           (None, s\<lparr>saved_names := rmtree user_dir (saved_names s),
                     status_text := Registration_failed_save_error,
                     registration_in_progress := False\<rparr>))
      else
        (None, s\<lparr>saved_names := rmtree user_dir (saved_names s),
                  status_text := Registration_failed_only (length (faces se)),
                  registration_in_progress := False\<rparr>))"

text \<open>The outer \<open>except\<close> branch followed by \<open>finally\<close>.\<close>

definition registration_error :: "string \<Rightarrow> sys_state \<Rightarrow> string option \<times> sys_state" where
  "registration_error user_dir s =
     (None, s\<lparr>saved_names := rmtree user_dir (saved_names s),
               status_text := Registration_failed_error_occurred,
               registration_in_progress := False\<rparr>)"

text \<open>
  \<open>register_face\<close> from its first line to the end of the loop: the flag is set, the
  directory of the session is made, the loop runs. An error of \<open>makedirs\<close> is an
  exception of the outer \<open>try\<close>, like one raised in the loop.
\<close>

definition capture_phase :: "enroll_env \<Rightarrow> sys_state \<Rightarrow> loop_end option" where
  "capture_phase env s =
     (let s0 = s\<lparr>registration_in_progress := True\<rparr>;
          user_dir = ''person_'' @ str (person_counter s0)
      in case makedirs user_dir (saved_names s0) of
           None \<Rightarrow> Some (Exception s0)
         | Some fs1 \<Rightarrow>
             capture_loop (start env) user_dir (ticks env)
               \<lparr>faces = [], embeddings = [], last_capture = 0, captures = []\<rparr>
               (s0\<lparr>saved_names := fs1\<rparr>))"

text \<open>
  The whole function. After the loop the window is closed; that call stands in the
  outer \<open>try\<close>, so when it raises the outer \<open>except\<close> branch runs and the sample count
  is never tested. The result is \<open>None\<close> when the input does not determine the run of
  the loop; otherwise the returned value (\<open>Some user_id\<close>, or \<open>None\<close> for Python's
  \<open>None\<close>) and the state.
\<close>

definition register_face :: "enroll_env \<Rightarrow> sys_state \<Rightarrow> (string option \<times> sys_state) option" where
  "register_face env s =
     (let user_id = ''Person_'' @ str (person_counter s);
          user_dir = ''person_'' @ str (person_counter s)
      in case capture_phase env s of
           None \<Rightarrow> None
         | Some (Exception s1) \<Rightarrow> Some (registration_error user_dir s1)
         | Some (Completed se s1) \<Rightarrow>
             if destroy_raises env then Some (registration_error user_dir s1)
             else Some (finish_registration env user_id user_dir se s1))"

section \<open>Observations and invariants\<close>

text \<open>
  The globals at the end of the loop; the session with which the loop of a call ends
  when it ends without an exception, and the number of samples collected in it.
\<close>

fun loop_state :: "loop_end \<Rightarrow> sys_state" where
  "loop_state (Exception s) = s"
| "loop_state (Completed se s) = s"

definition session_at_exit :: "enroll_env \<Rightarrow> sys_state \<Rightarrow> session option" where
  "session_at_exit env s =
     (case capture_phase env s of
        Some (Completed se s1) \<Rightarrow> Some se
      | _ \<Rightarrow> None)"

definition samples_at_exit :: "enroll_env \<Rightarrow> sys_state \<Rightarrow> nat option" where
  "samples_at_exit env s = map_option (length \<circ> faces) (session_at_exit env s)"

text \<open>The globals after a call of \<open>register_face\<close> (unchanged when the run is not determined).\<close>

definition after_enrollment :: "enroll_env \<Rightarrow> sys_state \<Rightarrow> sys_state" where
  "after_enrollment env s = (case register_face env s of Some (r, s') \<Rightarrow> s' | None \<Rightarrow> s)"

text \<open>A directory of that name exists.\<close>

definition dir_present :: "string \<Rightarrow> fs \<Rightarrow> bool" where
  "dir_present name fs0 = (case map_of fs0 name of Some e \<Rightarrow> is_dir e | None \<Rightarrow> False)"

text \<open>
  What \<open>pickle.load\<close> reads from \<open>embeddings.pkl\<close> of a directory, as \<open>verify_face\<close>
  opens it.
\<close>

definition load_embeddings :: "string \<Rightarrow> sys_state \<Rightarrow> embedding list option" where
  "load_embeddings name s =
     (case map_of (saved_names s) name of
        Some (Directory d) \<Rightarrow>
          (case embeddings_pkl d of Some (Embeddings es) \<Rightarrow> Some es | _ \<Rightarrow> None)
      | _ \<Rightarrow> None)"

text \<open>Capture times in which every later one is more than half a second after every earlier one.\<close>

fun spaced :: "real list \<Rightarrow> bool" where
  "spaced [] = True"
| "spaced (t # ts) = ((\<forall>u \<in> set ts. u - t > 0.5) \<and> spaced ts)"

text \<open>The globals that the capture loop does not assign.\<close>

definition same_globals :: "sys_state \<Rightarrow> sys_state \<Rightarrow> bool" where
  "same_globals s' s =
     (arduino s' = arduino s \<and> is_unlocked s' = is_unlocked s
      \<and> person_counter s' = person_counter s \<and> name_map s' = name_map s
      \<and> button_clicked s' = button_clicked s \<and> last_lock_state s' = last_lock_state s
      \<and> registration_in_progress s' = registration_in_progress s
      \<and> serial_out s' = serial_out s \<and> link_calls s' = link_calls s)"

text \<open>
  The invariant of the session: the history agrees with the collected embeddings, its
  times are spaced, none is later than \<open>last_capture\<close>, and the two lists of the session
  have the same length.
\<close>

definition session_inv :: "session \<Rightarrow> bool" where
  "session_inv se =
     (spaced (map fst (captures se))
      \<and> (\<forall>u \<in> set (map fst (captures se)). u \<le> last_capture se)
      \<and> map snd (captures se) = embeddings se
      \<and> length (faces se) = length (embeddings se))"

section \<open>Concrete inputs\<close>

text \<open>
  A port that answers at the second poll, and one that stays silent for the ten polls
  of the second.
\<close>

definition Acked :: link_reply where
  "Acked = Written [Nothing_waiting, Line_waiting]"

definition Timed_out :: link_reply where
  "Timed_out = Written [Nothing_waiting, Nothing_waiting, Nothing_waiting, Nothing_waiting,
     Nothing_waiting, Nothing_waiting, Nothing_waiting, Nothing_waiting, Nothing_waiting,
     Nothing_waiting]"

text \<open>The globals as the module initialises them, with the serial port open.\<close>

definition s_init :: sys_state where
  "s_init = \<lparr>arduino = True, status_text = System_Ready, is_unlocked = False,
     person_counter = 1, name_map = Map.empty, button_clicked = None,
     last_lock_state = None, registration_in_progress = False, saved_names = [],
     serial_out = [], link_calls = []\<rparr>"

definition loc_init :: main_locals where
  "loc_init = \<lparr>last_update_time = 0, face_box = None, confidence = None\<rparr>"

text \<open>The state after an accepted face: unlocked, and the controller knows it.\<close>

definition s_unlocked :: sys_state where
  "s_unlocked = s_init\<lparr>is_unlocked := True, last_lock_state := Some True\<rparr>"

definition face_img :: "embedding \<Rightarrow> image" where
  "face_img e = \<lparr>rows = 100, cols = 100, variance = 1000, represent = Some e\<rparr>"

definition one_face :: "embedding \<Rightarrow> frame" where
  "one_face e = \<lparr>detections = Some [((10, 10, 100, 100), face_img e)]\<rparr>"

definition no_face :: frame where
  "no_face = \<lparr>detections = Some []\<rparr>"

definition two_faces :: frame where
  "two_faces = \<lparr>detections = Some [((10, 10, 100, 100), face_img [1, 0]),
                                    ((300, 10, 100, 100), face_img [0, 1])]\<rparr>"

text \<open>A similarity for the examples: the dot product, which raises on unequal lengths.\<close>

definition dot_sim :: "embedding \<Rightarrow> embedding \<Rightarrow> real option" where
  "dot_sim a b = (if length a = length b then Some (sum_list (map2 (*) a b)) else None)"

text \<open>
  An iteration at time \<open>t\<close> that sees one valid face with embedding \<open>e\<close>, and an
  iteration in which no frame is ready.
\<close>

definition sample_tick :: "real \<Rightarrow> embedding \<Rightarrow> tick" where
  "sample_tick t e = \<lparr>now = t, cap_read = Some (one_face e), t_check = t,
     t_capture = t + 0.05, key_esc = False, raises = False\<rparr>"

definition idle_tick :: "real \<Rightarrow> tick" where
  "idle_tick t = \<lparr>now = t, cap_read = None, t_check = t, t_capture = t,
     key_esc = False, raises = False\<rparr>"

text \<open>Three samples, 0.6 s apart, then the time cap.\<close>

definition env_three :: enroll_env where
  "env_three = \<lparr>start = 1000,
     ticks = [sample_tick 1000.6 [1], sample_tick 1001.2 [2], sample_tick 1001.8 [3],
              idle_tick 1008],
     destroy_raises = False, dump_ok = True, unlock_reply = Acked\<rparr>"

text \<open>The same session when writing \<open>embeddings.pkl\<close> fails.\<close>

definition env_save_fails :: enroll_env where
  "env_save_fails = env_three\<lparr>dump_ok := False\<rparr>"

text \<open>The same session when closing the window raises.\<close>

definition env_window_gone :: enroll_env where
  "env_window_gone = env_three\<lparr>destroy_raises := True\<rparr>"

text \<open>Nine samples, 0.6 s apart, then the time cap.\<close>

definition env_nine :: enroll_env where
  "env_nine = \<lparr>start = 1000,
     ticks = [sample_tick 1000.6 [1], sample_tick 1001.2 [2], sample_tick 1001.8 [3],
              sample_tick 1002.4 [4], sample_tick 1003 [5], sample_tick 1003.6 [6],
              sample_tick 1004.2 [7], sample_tick 1004.8 [8], sample_tick 1005.4 [9],
              idle_tick 1008],
     destroy_raises = False, dump_ok = True, unlock_reply = Acked\<rparr>"

text \<open>
  A session in which the second candidate comes 0.3 s after the first capture was
  recorded (at 1000.65), and the locals of the session at that moment.
\<close>

definition env_close :: enroll_env where
  "env_close = \<lparr>start = 1000,
     ticks = [sample_tick 1000.6 [1], sample_tick 1000.95 [2], sample_tick 1001.5 [3],
              sample_tick 1002.1 [4], idle_tick 1008],
     destroy_raises = False, dump_ok = True, unlock_reply = Acked\<rparr>"

definition session_one :: session where
  "session_one = \<lparr>faces = [face_img [1]], embeddings = [[1]], last_capture = 1000.65,
     captures = [(1000.65, [1])]\<rparr>"

text \<open>A session in front of which nobody stands until the time cap.\<close>

definition env_nobody :: enroll_env where
  "env_nobody = \<lparr>start = 1000,
     ticks = [\<lparr>now = 1003, cap_read = Some no_face, t_check = 1003, t_capture = 1003,
               key_esc = False, raises = False\<rparr>,
              idle_tick 1008],
     destroy_raises = False, dump_ok = True, unlock_reply = Acked\<rparr>"

text \<open>A session in which the display raises in the first iteration, after a capture.\<close>

definition env_raises :: enroll_env where
  "env_raises = \<lparr>start = 1000,
     ticks = [(sample_tick 1000.6 [1])\<lparr>raises := True\<rparr>, idle_tick 1008],
     destroy_raises = False, dump_ok = True, unlock_reply = Acked\<rparr>"

text \<open>
  The globals of a process that starts over a directory in which an earlier run has
  saved \<open>person_1\<close>: the counter is 1 again.
\<close>

definition s_restarted :: sys_state where
  "s_restarted = s_init\<lparr>saved_names :=
     [(''person_1'',
       Directory \<lparr>images = [face_img [1, 0], face_img [1, 0], face_img [1, 0]],
                  embeddings_pkl = Some (Embeddings [[1, 0], [1, 0], [1, 0]])\<rparr>)]\<rparr>"

section \<open>Properties\<close>

subsection \<open>Device link and verification: what each step assigns\<close>

lemma send_serial_command_fields:
  "link_calls (snd (send_serial_command c r s)) = link_calls s @ [c]"
  "last_lock_state (snd (send_serial_command c r s)) = last_lock_state s"
  "is_unlocked (snd (send_serial_command c r s)) = is_unlocked s"
  "saved_names (snd (send_serial_command c r s)) = saved_names s"
  "person_counter (snd (send_serial_command c r s)) = person_counter s"
  "name_map (snd (send_serial_command c r s)) = name_map s"
  "registration_in_progress (snd (send_serial_command c r s)) = registration_in_progress s"
  by (simp_all add: send_serial_command_def Let_def split: link_reply.splits)

lemma send_serial_command_wire:
  "serial_out (snd (send_serial_command c r s)) =
     (if arduino s \<and> r \<noteq> Write_error then serial_out s @ [c @ ''\<newline>''] else serial_out s)"
  by (simp add: send_serial_command_def Let_def split: link_reply.splits)

lemma send_serial_command_result:
  "fst (send_serial_command c r s) \<longleftrightarrow>
     arduino s \<and> (case r of Write_error \<Rightarrow> False | Written polls \<Rightarrow> wait_for_confirmation polls)"
  by (simp add: send_serial_command_def Let_def split: link_reply.splits)

lemma verify_face_state:
  "snd (verify_face sim fr s) = s\<lparr>status_text := status_text (snd (verify_face sim fr s))\<rparr>"
  by (simp add: verify_face_def Let_def split: option.splits list.splits prod.splits)

lemma verify_face_fields:
  "last_lock_state (snd (verify_face sim fr s)) = last_lock_state s"
  "link_calls (snd (verify_face sim fr s)) = link_calls s"
  "serial_out (snd (verify_face sim fr s)) = serial_out s"
  "arduino (snd (verify_face sim fr s)) = arduino s"
  "saved_names (snd (verify_face sim fr s)) = saved_names s"
  "person_counter (snd (verify_face sim fr s)) = person_counter s"
  by (subst verify_face_state, simp)+

text \<open>The decision depends on the state through the saved directory only.\<close>

lemma verify_face_store_only:
  "saved_names s' = saved_names s \<Longrightarrow> fst (verify_face sim fr s') = fst (verify_face sim fr s)"
  by (simp add: verify_face_def Let_def split: option.splits list.splits prod.splits)

lemma cycle_link_calls:
  "link_calls (snd (verification_cycle sim fr reply t ls)) =
     link_calls (snd ls) @
       (if last_lock_state (snd ls) \<noteq> Some (fst (fst (verify_face sim fr (snd ls))))
        then [if fst (fst (verify_face sim fr (snd ls))) then ''lock_off'' else ''lock_on'']
        else [])"
  by (simp add: verification_cycle_def Let_def split_beta verify_face_fields
      send_serial_command_fields)

lemma cycle_serial_out:
  "serial_out (snd (verification_cycle sim fr reply t ls)) =
     serial_out (snd ls) @
       (if last_lock_state (snd ls) \<noteq> Some (fst (fst (verify_face sim fr (snd ls))))
           \<and> arduino (snd ls) \<and> reply \<noteq> Write_error
        then [(if fst (fst (verify_face sim fr (snd ls))) then ''lock_off'' else ''lock_on'')
              @ ''\<newline>'']
        else [])"
  by (simp add: verification_cycle_def Let_def split_beta verify_face_fields
      send_serial_command_fields send_serial_command_wire)

lemma cycle_last_lock_state:
  "last_lock_state (snd (verification_cycle sim fr reply t ls)) =
     Some (fst (fst (verify_face sim fr (snd ls))))"
  by (simp add: verification_cycle_def Let_def split_beta verify_face_fields
      send_serial_command_fields)

lemma cycle_saved_names:
  "saved_names (snd (verification_cycle sim fr reply t ls)) = saved_names (snd ls)"
  by (simp add: verification_cycle_def Let_def split_beta verify_face_fields
      send_serial_command_fields)

lemma cycle_next_decision:
  "fst (verify_face sim fr2 (snd (verification_cycle sim fr reply t ls))) =
     fst (verify_face sim fr2 (snd ls))"
  by (rule verify_face_store_only) (rule cycle_saved_names)

lemmas examples_simps =
  Acked_def Timed_out_def s_init_def loc_init_def s_unlocked_def face_img_def one_face_def no_face_def two_faces_def
  dot_sim_def sample_tick_def idle_tick_def s_restarted_def session_one_def

lemmas verification_simps =
  verification_cycle_def verify_face_def send_serial_command_def is_valid_face_def
  extract_face_embedding_def img_size_def CONFIDENCE_THRESHOLD_def Let_def

subsection \<open>The lock controller\<close>

text \<open>
  C1, as stated, fails. The state is unlocked and known to be so; the frame shows no
  face, so the decision is REJECT; the port answers nothing to \<open>lock_on\<close> and
  \<open>send_serial_command\<close> returns \<open>False\<close>. The cycle sets \<open>last_lock_state\<close> to the
  new decision all the same, and the next cycle, with the same decision, sends nothing.
\<close>

theorem lock_state_kept_on_timeout_counterexample:
  "fst (fst (verify_face dot_sim no_face s_unlocked)) = False
   \<and> last_lock_state s_unlocked = Some True
   \<and> fst (send_serial_command ''lock_on'' Timed_out (s_unlocked\<lparr>is_unlocked := False\<rparr>)) = False
   \<and> last_lock_state (snd (verification_cycle dot_sim no_face Timed_out 2 (loc_init, s_unlocked)))
       = Some False
   \<and> link_calls (snd (verification_cycle dot_sim no_face Timed_out 2 (loc_init, s_unlocked)))
       = [''lock_on'']
   \<and> link_calls (snd (verification_cycle dot_sim no_face Acked 4
         (verification_cycle dot_sim no_face Timed_out 2 (loc_init, s_unlocked))))
       = [''lock_on'']"
  by (simp add: verification_simps examples_simps)

text \<open>
  C1, amended: when the new decision differs from \<open>last_lock_state\<close>, the cycle hands
  one command to the device link and then sets \<open>last_lock_state\<close> to the new decision,
  whatever the link answers (acknowledgement, timeout or error). A following cycle with
  the same decision therefore sends no command.
\<close>

theorem lock_state_follows_decision:
  assumes differs: "last_lock_state s \<noteq> Some (fst (fst (verify_face sim fr s)))"
    and again: "fst (fst (verify_face sim fr2 s)) = fst (fst (verify_face sim fr s))"
  shows "last_lock_state (snd (verification_cycle sim fr reply t (loc, s)))
           = Some (fst (fst (verify_face sim fr s)))
         \<and> link_calls (snd (verification_cycle sim fr reply t (loc, s)))
           = link_calls s @ [if fst (fst (verify_face sim fr s)) then ''lock_off'' else ''lock_on'']
         \<and> link_calls (snd (verification_cycle sim fr2 reply2 t2
               (verification_cycle sim fr reply t (loc, s))))
           = link_calls (snd (verification_cycle sim fr reply t (loc, s)))"
proof -
  let ?r1 = "verification_cycle sim fr reply t (loc, s)"
  have last: "last_lock_state (snd ?r1) = Some (fst (fst (verify_face sim fr s)))"
    by (simp add: cycle_last_lock_state)
  have sent: "link_calls (snd ?r1)
      = link_calls s @ [if fst (fst (verify_face sim fr s)) then ''lock_off'' else ''lock_on'']"
    using differs by (simp add: cycle_link_calls)
  have "fst (fst (verify_face sim fr2 (snd ?r1))) = fst (fst (verify_face sim fr s))"
    using again by (simp add: cycle_next_decision)
  with last have "link_calls (snd (verification_cycle sim fr2 reply2 t2 ?r1)) = link_calls (snd ?r1)"
    by (simp add: cycle_link_calls)
  with last sent show ?thesis by simp
qed

text \<open>The amended C1 at the input of the counterexample, with a timeout.\<close>

theorem lock_state_follows_decision_witness:
  "last_lock_state s_unlocked \<noteq> Some (fst (fst (verify_face dot_sim no_face s_unlocked)))
   \<and> last_lock_state (snd (verification_cycle dot_sim no_face Timed_out 2 (loc_init, s_unlocked)))
       = Some False
   \<and> link_calls (snd (verification_cycle dot_sim no_face Timed_out 2 (loc_init, s_unlocked)))
       = [''lock_on'']
   \<and> link_calls (snd (verification_cycle dot_sim no_face Acked 4
         (verification_cycle dot_sim no_face Timed_out 2 (loc_init, s_unlocked))))
       = link_calls (snd (verification_cycle dot_sim no_face Timed_out 2 (loc_init, s_unlocked)))"
proof -
  have d: "fst (fst (verify_face dot_sim no_face s_unlocked)) = False"
    by (simp add: verify_face_def no_face_def)
  have h: "last_lock_state s_unlocked \<noteq> Some (fst (fst (verify_face dot_sim no_face s_unlocked)))"
    by (simp add: d) (simp add: s_unlocked_def)
  have c: "link_calls s_unlocked = []"
    by (simp add: s_unlocked_def s_init_def)
  from lock_state_follows_decision [OF h refl, of Timed_out 2 loc_init Acked 4] h d c
  show ?thesis by simp
qed


text \<open>
  C4: in a verification cycle exactly one command is handed to the device link when the
  decision differs from the last observed one, and none when it is the same; so the
  second of two consecutive cycles with the same decision sends nothing. A command is
  counted where \<open>send_serial_command\<close> is called. On the wire the same holds when the
  port is open and the write does not raise: one line, or none.
\<close>

theorem one_command_per_decision_change:
  "link_calls (snd (verification_cycle sim fr reply t (loc, s))) =
     link_calls s @
       (if last_lock_state s \<noteq> Some (fst (fst (verify_face sim fr s)))
        then [if fst (fst (verify_face sim fr s)) then ''lock_off'' else ''lock_on'']
        else [])
   \<and> (fst (fst (verify_face sim fr2 s)) = fst (fst (verify_face sim fr s)) \<longrightarrow>
        link_calls (snd (verification_cycle sim fr2 reply2 t2
           (verification_cycle sim fr reply t (loc, s))))
          = link_calls (snd (verification_cycle sim fr reply t (loc, s)))
        \<and> serial_out (snd (verification_cycle sim fr2 reply2 t2
           (verification_cycle sim fr reply t (loc, s))))
          = serial_out (snd (verification_cycle sim fr reply t (loc, s))))
   \<and> (arduino s \<and> reply \<noteq> Write_error \<longrightarrow>
        serial_out (snd (verification_cycle sim fr reply t (loc, s))) =
          serial_out s @
            (if last_lock_state s \<noteq> Some (fst (fst (verify_face sim fr s)))
             then [(if fst (fst (verify_face sim fr s)) then ''lock_off'' else ''lock_on'')
                   @ ''\<newline>'']
             else []))"
proof (intro conjI impI)
  let ?r1 = "verification_cycle sim fr reply t (loc, s)"
  show "link_calls (snd ?r1) =
     link_calls s @
       (if last_lock_state s \<noteq> Some (fst (fst (verify_face sim fr s)))
        then [if fst (fst (verify_face sim fr s)) then ''lock_off'' else ''lock_on'']
        else [])"
    by (simp add: cycle_link_calls)
  {
    assume same: "fst (fst (verify_face sim fr2 s)) = fst (fst (verify_face sim fr s))"
    have known: "last_lock_state (snd ?r1) = Some (fst (fst (verify_face sim fr2 (snd ?r1))))"
      using same by (simp add: cycle_last_lock_state cycle_next_decision)
    show "link_calls (snd (verification_cycle sim fr2 reply2 t2 ?r1)) = link_calls (snd ?r1)"
      using known by (simp add: cycle_link_calls)
    show "serial_out (snd (verification_cycle sim fr2 reply2 t2 ?r1)) = serial_out (snd ?r1)"
      using known by (simp add: cycle_serial_out)
  }
  assume "arduino s \<and> reply \<noteq> Write_error"
  then show "serial_out (snd ?r1) =
          serial_out s @
            (if last_lock_state s \<noteq> Some (fst (fst (verify_face sim fr s)))
             then [(if fst (fst (verify_face sim fr s)) then ''lock_off'' else ''lock_on'')
                   @ ''\<newline>'']
             else [])"
    by (simp add: cycle_serial_out)
qed

text \<open>
  C4 at a concrete input: unlocked, then two frames without a face. The first cycle sends
  \<open>lock_on\<close>, the second sends nothing.
\<close>

theorem one_command_per_decision_change_witness:
  "fst (fst (verify_face dot_sim no_face s_unlocked)) = False
   \<and> arduino s_unlocked \<and> Acked \<noteq> Write_error
   \<and> link_calls (snd (verification_cycle dot_sim no_face Acked 2 (loc_init, s_unlocked)))
       = [''lock_on'']
   \<and> serial_out (snd (verification_cycle dot_sim no_face Acked 2 (loc_init, s_unlocked)))
       = [''lock_on\<newline>'']
   \<and> link_calls (snd (verification_cycle dot_sim no_face Acked 4
         (verification_cycle dot_sim no_face Acked 2 (loc_init, s_unlocked))))
       = [''lock_on'']
   \<and> serial_out (snd (verification_cycle dot_sim no_face Acked 4
         (verification_cycle dot_sim no_face Acked 2 (loc_init, s_unlocked))))
       = [''lock_on\<newline>'']"
proof -
  have d: "fst (fst (verify_face dot_sim no_face s_unlocked)) = False"
    by (simp add: verify_face_def no_face_def)
  have s: "last_lock_state s_unlocked = Some True" "link_calls s_unlocked = []"
    "serial_out s_unlocked = []" "arduino s_unlocked"
    by (simp_all add: s_unlocked_def s_init_def)
  from one_command_per_decision_change
    [of dot_sim no_face Acked 2 loc_init s_unlocked no_face Acked 4] d s
  show ?thesis by (simp add: Acked_def)
qed

subsection \<open>Verification\<close>

text \<open>
  C5: when the detector returns no face, or two or more, \<open>verify_face\<close> returns REJECT
  with no face box and no confidence, for every content of the store.
\<close>

theorem verify_rejects_unless_one_face:
  assumes "detections fr = Some fd" and "length fd \<noteq> 1"
  shows "fst (verify_face sim fr s) = (False, None, None)"
proof (cases fd)
  case Nil
  with assms show ?thesis by (simp add: verify_face_def)
next
  case (Cons f fs)
  with assms obtain g gs where "fs = g # gs" by (cases fs) auto
  with Cons assms show ?thesis by (simp add: verify_face_def split: prod.splits)
qed

text \<open>C5 for a frame with two faces and one with none, over a store that holds an identity.\<close>

theorem verify_rejects_unless_one_face_witness:
  "detections two_faces = Some [((10, 10, 100, 100), face_img [1, 0]),
                                ((300, 10, 100, 100), face_img [0, 1])]
   \<and> length [((10, 10, 100, 100) :: box, face_img [1, 0]), ((300, 10, 100, 100), face_img [0, 1])] \<noteq> 1
   \<and> get_face_count s_restarted = 1
   \<and> fst (verify_face dot_sim two_faces s_restarted) = (False, None, None)
   \<and> detections no_face = Some []
   \<and> fst (verify_face dot_sim no_face s_restarted) = (False, None, None)"
proof -
  have z: "detections no_face = Some []"
    by (simp add: no_face_def)
  have zn: "length ([] :: (box \<times> image) list) \<noteq> 1"
    by simp
  have h: "detections two_faces = Some [((10, 10, 100, 100), face_img [1, 0]),
                                        ((300, 10, 100, 100), face_img [0, 1])]"
    by (simp add: two_faces_def)
  have n: "length [((10, 10, 100, 100) :: box, face_img [1, 0]), ((300, 10, 100, 100), face_img [0, 1])] \<noteq> 1"
    by simp
  have c: "get_face_count s_restarted = 1"
    by (simp add: get_face_count_def s_restarted_def s_init_def)
  from verify_rejects_unless_one_face [OF h n, of dot_sim s_restarted]
    verify_rejects_unless_one_face [OF z zn, of dot_sim s_restarted] h n c z
  show ?thesis by simp
qed

lemma scan_folders_no_directory:
  "\<forall>(n, e) \<in> set fs0. \<not> is_dir e \<Longrightarrow> scan_folders sim test_emb fs0 best = best"
  by (induction fs0) (auto split: entry.splits)

text \<open>
  C7: with an empty store (\<open>get_face_count\<close> is 0), a frame with exactly one detected
  face that is valid and whose embedding is extracted gives REJECT with confidence 0
  (and the face box).
\<close>

theorem verify_empty_store_rejects:
  assumes empty: "get_face_count s = 0"
    and one: "detections fr = Some [(b, img)]"
    and valid: "is_valid_face img"
    and emb: "extract_face_embedding img = Some e"
  shows "fst (verify_face sim fr s) = (False, Some b, Some 0)"
proof -
  from empty have "\<forall>(n, e) \<in> set (saved_names s). \<not> is_dir e"
    by (auto simp: get_face_count_def filter_empty_conv)
  then have "scan_folders sim e (saved_names s) (0, None) = (0, None)"
    by (rule scan_folders_no_directory)
  with one valid emb show ?thesis
    by (simp add: verify_face_def CONFIDENCE_THRESHOLD_def)
qed

text \<open>C7 for the initial state, whose store is empty, and a frame with one valid face.\<close>

theorem verify_empty_store_rejects_witness:
  "get_face_count s_init = 0
   \<and> detections (one_face [1, 0]) = Some [((10, 10, 100, 100), face_img [1, 0])]
   \<and> is_valid_face (face_img [1, 0])
   \<and> extract_face_embedding (face_img [1, 0]) = Some [1, 0]
   \<and> fst (verify_face dot_sim (one_face [1, 0]) s_init) = (False, Some (10, 10, 100, 100), Some 0)"
proof -
  have a: "get_face_count s_init = 0" by (simp add: get_face_count_def s_init_def)
  have b: "detections (one_face [1, 0]) = Some [((10, 10, 100, 100), face_img [1, 0])]"
    by (simp add: one_face_def)
  have c: "is_valid_face (face_img [1, 0])"
    by (simp add: is_valid_face_def img_size_def face_img_def)
  have d: "extract_face_embedding (face_img [1, 0]) = Some [1, 0]"
    by (simp add: extract_face_embedding_def img_size_def face_img_def)
  from verify_empty_store_rejects [OF a b c d, of dot_sim] a b c d show ?thesis by simp
qed

subsection \<open>Reset\<close>

lemma on_mouse_reset:
  assumes "\<not> registration_in_progress s" and "is_button_clicked x y = Some reset"
  shows "on_mouse True x y reply s = reset_all reply (s\<lparr>button_clicked := Some reset\<rparr>)"
  using assms by (simp add: on_mouse_def Let_def)

text \<open>
  C8: the reset branch leaves the store empty; run twice it leaves the same empty store
  as run once, and \<open>get_face_count\<close> is 0 after one run and after two.
\<close>

theorem reset_all_idempotent:
  "saved_names (reset_all r2 (reset_all r1 s)) = saved_names (reset_all r1 s)
   \<and> saved_names (reset_all r1 s) = []
   \<and> get_face_count (reset_all r1 s) = 0
   \<and> get_face_count (reset_all r2 (reset_all r1 s)) = 0"
  by (simp add: reset_all_def get_face_count_def Let_def send_serial_command_fields)


subsection \<open>The capture loop\<close>

text \<open>
  An invariant rule for the loop: a property of the session and the globals that every
  completed body keeps holds at the end; what holds after a raising body holds in the
  state of the exception.
\<close>

lemma capture_loop_rule:
  assumes run: "capture_loop st ud tks se s = Some e"
    and init: "P se s"
    and keep: "\<And>tk fr se s se1 s1.
       P se s \<Longrightarrow> tk \<in> set tks \<Longrightarrow> capture_body ud tk fr se s = Next se1 s1 \<Longrightarrow> P se1 s1"
    and exc: "\<And>tk fr se s s1.
       P se s \<Longrightarrow> tk \<in> set tks \<Longrightarrow> capture_body ud tk fr se s = Raised s1 \<Longrightarrow> Q s1"
  shows "case e of Completed se' s' \<Rightarrow> P se' s' | Exception s' \<Rightarrow> Q s'"
  using run init keep exc
proof (induction tks arbitrary: se s)
  case Nil
  then show ?case by simp
next
  case (Cons tk tks)
  have keep': "\<And>tk' fr se s se1 s1.
       P se s \<Longrightarrow> tk' \<in> set tks \<Longrightarrow> capture_body ud tk' fr se s = Next se1 s1 \<Longrightarrow> P se1 s1"
    using Cons.prems(3) by (meson list.set_intros(2))
  have exc': "\<And>tk' fr se s s1.
       P se s \<Longrightarrow> tk' \<in> set tks \<Longrightarrow> capture_body ud tk' fr se s = Raised s1 \<Longrightarrow> Q s1"
    using Cons.prems(4) by (meson list.set_intros(2))
  show ?case
  proof (cases "now tk - st < REGISTRATION_DURATION \<and> length (faces se) < MAX_REGISTRATION_IMAGES")
    case False
    with Cons.prems(1,2) show ?thesis by auto
  next
    case go: True
    show ?thesis
    proof (cases "cap_read tk")
      case None
      with go Cons.prems(1) have "capture_loop st ud tks se s = Some e" by simp
      from Cons.IH [OF this Cons.prems(2) keep' exc'] show ?thesis by simp
    next
      case (Some fr)
      show ?thesis
      proof (cases "capture_body ud tk fr se s")
        case (Raised s1)
        with go Some Cons.prems(1) have e: "e = Exception s1" by simp
        have "Q s1" using Cons.prems(4) [OF Cons.prems(2) _ Raised] by simp
        with e show ?thesis by simp
      next
        case (Next se1 s1)
        have p1: "P se1 s1" using Cons.prems(3) [OF Cons.prems(2) _ Next] by simp
        show ?thesis
        proof (cases "key_esc tk")
          case True
          with go Some Next Cons.prems(1) have "e = Completed se1 s1" by simp
          with p1 show ?thesis by simp
        next
          case False
          with go Some Next Cons.prems(1) have "capture_loop st ud tks se1 s1 = Some e" by simp
          from Cons.IH [OF this p1 keep' exc'] show ?thesis by simp
        qed
      qed
    qed
  qed
qed

text \<open>The loop returns as soon as the input holds an iteration at or after the time cap.\<close>

lemma capture_loop_returns:
  "\<exists>tk \<in> set tks. REGISTRATION_DURATION \<le> now tk - st \<Longrightarrow> capture_loop st ud tks se s \<noteq> None"
proof (induction tks arbitrary: se s)
  case Nil
  then show ?case by simp
next
  case (Cons tk tks)
  show ?case
  proof (cases "REGISTRATION_DURATION \<le> now tk - st")
    case True
    then show ?thesis by simp
  next
    case False
    with Cons.prems have "\<exists>tk \<in> set tks. REGISTRATION_DURATION \<le> now tk - st" by simp
    then have "\<And>se s. capture_loop st ud tks se s \<noteq> None" by (rule Cons.IH)
    then show ?thesis by (simp split: option.splits body_end.splits)
  qed
qed

lemma same_globals_refl: "same_globals s s"
  by (simp add: same_globals_def)

lemma same_globals_trans: "same_globals s2 s1 \<Longrightarrow> same_globals s1 s \<Longrightarrow> same_globals s2 s"
  by (simp add: same_globals_def)

lemma capture_body_globals:
  "capture_body ud tk fr se s = Next se1 s1 \<Longrightarrow> same_globals s1 s"
  "capture_body ud tk fr se s = Raised s1 \<Longrightarrow> same_globals s1 s"
  by (auto simp: capture_body_def same_globals_def Let_def
      split: option.splits list.splits if_splits prod.splits)

lemma capture_loop_globals:
  assumes "capture_loop st ud tks se s = Some e"
  shows "same_globals (loop_state e) s"
proof -
  have "case e of Completed se' s' \<Rightarrow> same_globals s' s | Exception s' \<Rightarrow> same_globals s' s"
    using assms
  proof (rule capture_loop_rule [where P = "\<lambda>se' s'. same_globals s' s"])
    show "same_globals s s" by (rule same_globals_refl)
  next
    fix tk fr se0 s0 se1 s1
    assume "same_globals s0 s" and "capture_body ud tk fr se0 s0 = Next se1 s1"
    then show "same_globals s1 s"
      by (blast intro: same_globals_trans capture_body_globals)
  next
    fix tk fr se0 s0 s1
    assume "same_globals s0 s" and "capture_body ud tk fr se0 s0 = Raised s1"
    then show "same_globals s1 s"
      by (blast intro: same_globals_trans capture_body_globals)
  qed
  then show ?thesis by (cases e) simp_all
qed

lemma capture_phase_globals:
  assumes "capture_phase env s = Some e"
  shows "same_globals (loop_state e) (s\<lparr>registration_in_progress := True\<rparr>)"
proof (cases "makedirs (''person_'' @ str (person_counter s)) (saved_names s)")
  case None
  with assms have "e = Exception (s\<lparr>registration_in_progress := True\<rparr>)"
    by (simp add: capture_phase_def Let_def)
  then show ?thesis by (simp add: same_globals_refl)
next
  case (Some fs1)
  with assms have "capture_loop (start env) (''person_'' @ str (person_counter s)) (ticks env)
      \<lparr>faces = [], embeddings = [], last_capture = 0, captures = []\<rparr>
      (s\<lparr>registration_in_progress := True, saved_names := fs1\<rparr>) = Some e"
    by (simp add: capture_phase_def Let_def)
  then have "same_globals (loop_state e) (s\<lparr>registration_in_progress := True, saved_names := fs1\<rparr>)"
    by (rule capture_loop_globals)
  then show ?thesis by (simp add: same_globals_def)
qed

lemma capture_phase_returns:
  assumes "\<exists>tk \<in> set (ticks env). REGISTRATION_DURATION \<le> now tk - start env"
  shows "capture_phase env s \<noteq> None"
  using capture_loop_returns [OF assms]
  by (simp add: capture_phase_def Let_def split: option.splits)

subsection \<open>The session invariant\<close>

lemma spaced_snoc: "spaced (ts @ [t]) \<longleftrightarrow> spaced ts \<and> (\<forall>u \<in> set ts. t - u > 0.5)"
  by (induction ts) auto

lemma session_inv_init:
  "session_inv \<lparr>faces = [], embeddings = [], last_capture = 0, captures = []\<rparr>"
  by (simp add: session_inv_def)

lemma capture_body_cases:
  assumes "capture_body ud tk fr se s = Next se1 s1"
  shows "(se1 = se \<and> s1 = s)
     \<or> (\<exists>b face_img emb. detections fr = Some [(b, face_img)] \<and> is_valid_face face_img
          \<and> t_check tk - last_capture se > 0.5
          \<and> extract_face_embedding face_img = Some emb
          \<and> se1 = se\<lparr>embeddings := embeddings se @ [emb], faces := faces se @ [face_img],
                       last_capture := t_capture tk,
                       captures := captures se @ [(t_capture tk, emb)]\<rparr>
          \<and> s1 = s\<lparr>saved_names := imwrite ud face_img (saved_names s),
                     status_text := Capturing (length (faces se) + 1)\<rparr>)"
  using assms
  by (auto simp: capture_body_def Let_def split: option.splits list.splits if_splits prod.splits)

lemma capture_body_session_inv:
  assumes body: "capture_body ud tk fr se s = Next se1 s1"
    and inv: "session_inv se"
    and clock: "t_check tk \<le> t_capture tk"
  shows "session_inv se1"
proof -
  from capture_body_cases [OF body] consider
      (skip) "se1 = se"
    | (take) emb face_img where "t_check tk - last_capture se > 0.5"
        "se1 = se\<lparr>embeddings := embeddings se @ [emb], faces := faces se @ [face_img],
                    last_capture := t_capture tk,
                    captures := captures se @ [(t_capture tk, emb)]\<rparr>"
    by blast
  then show ?thesis
  proof cases
    case skip
    with inv show ?thesis by simp
  next
    case take
    have later: "\<forall>u \<in> set (map fst (captures se)). t_capture tk - u > 0.5"
    proof
      fix u assume "u \<in> set (map fst (captures se))"
      with inv have "u \<le> last_capture se" by (auto simp: session_inv_def)
      with take(1) clock show "t_capture tk - u > 0.5" by simp
    qed
    then have "\<forall>u \<in> set (map fst (captures se)). u \<le> t_capture tk" by auto
    with later inv take(2) show ?thesis
      by (auto simp: session_inv_def spaced_snoc)
  qed
qed

lemma capture_loop_session_inv:
  assumes run: "capture_loop st ud tks se s = Some (Completed se' s')"
    and inv: "session_inv se"
    and clock: "\<forall>tk \<in> set tks. t_check tk \<le> t_capture tk"
  shows "session_inv se'"
proof -
  have "case Completed se' s' of Completed se2 s2 \<Rightarrow> session_inv se2 | Exception s2 \<Rightarrow> True"
    using run
  proof (rule capture_loop_rule [where P = "\<lambda>se s. session_inv se" and Q = "\<lambda>s. True"])
    show "session_inv se" by (rule inv)
  next
    fix tk fr se0 s0 se1 s1
    assume "session_inv se0" "tk \<in> set tks" "capture_body ud tk fr se0 s0 = Next se1 s1"
    with clock show "session_inv se1" by (auto intro: capture_body_session_inv)
  qed simp
  then show ?thesis by simp
qed

text \<open>Without an assumption on the clock the two lists of the session still agree.\<close>

lemma capture_loop_lengths:
  assumes run: "capture_loop st ud tks se s = Some (Completed se' s')"
    and inv: "length (faces se) = length (embeddings se) \<and> map snd (captures se) = embeddings se"
  shows "length (faces se') = length (embeddings se') \<and> map snd (captures se') = embeddings se'"
proof -
  have "case Completed se' s' of
          Completed se2 s2 \<Rightarrow> length (faces se2) = length (embeddings se2)
             \<and> map snd (captures se2) = embeddings se2
        | Exception s2 \<Rightarrow> True"
    using run
  proof (rule capture_loop_rule [where Q = "\<lambda>s. True"
        and P = "\<lambda>se s. length (faces se) = length (embeddings se) \<and> map snd (captures se) = embeddings se"])
    show "length (faces se) = length (embeddings se) \<and> map snd (captures se) = embeddings se"
      by (rule inv)
  next
    fix tk fr se0 s0 se1 s1
    assume "length (faces se0) = length (embeddings se0) \<and> map snd (captures se0) = embeddings se0"
      and "capture_body ud tk fr se0 s0 = Next se1 s1"
    then show "length (faces se1) = length (embeddings se1) \<and> map snd (captures se1) = embeddings se1"
      by (auto dest!: capture_body_cases)
  qed simp
  then show ?thesis by simp
qed

subsection \<open>The end of a session\<close>

lemma finish_registration_commit:
  assumes "finish_registration env user_id user_dir se s = (Some u, s')"
  shows "u = user_id \<and> MIN_REGISTRATION_FACES \<le> length (faces se) \<and> dump_ok env
     \<and> name_map s' = (name_map s)(person_counter s \<mapsto> user_id)
     \<and> person_counter s' = person_counter s + 1
     \<and> saved_names s' = pickle_dump user_dir (embeddings se) (saved_names s)
     \<and> \<not> registration_in_progress s'"
  using assms
  by (auto simp: finish_registration_def Let_def send_serial_command_fields split: if_splits)

lemma finish_registration_fail:
  assumes "finish_registration env user_id user_dir se s = (None, s')"
  shows "\<not> (MIN_REGISTRATION_FACES \<le> length (faces se) \<and> dump_ok env)
     \<and> name_map s' = name_map s \<and> person_counter s' = person_counter s
     \<and> saved_names s' = rmtree user_dir (saved_names s)
     \<and> \<not> registration_in_progress s'"
  using assms
  by (auto simp: finish_registration_def Let_def split: if_splits)

lemma finish_registration_result:
  "fst (finish_registration env user_id user_dir se s) =
     (if MIN_REGISTRATION_FACES \<le> length (faces se) \<and> dump_ok env then Some user_id else None)"
  by (simp add: finish_registration_def Let_def)

lemma register_face_cases:
  assumes "register_face env s = Some (r, s')"
  shows "(\<exists>e. capture_phase env s = Some e
            \<and> (r, s') = registration_error (''person_'' @ str (person_counter s)) (loop_state e))
       \<or> (\<exists>se s1. capture_phase env s = Some (Completed se s1) \<and> \<not> destroy_raises env
            \<and> (r, s') = finish_registration env (''Person_'' @ str (person_counter s))
                  (''person_'' @ str (person_counter s)) se s1)"
  using assms
  by (auto simp: register_face_def Let_def split: option.splits loop_end.splits if_splits)

lemmas enrollment_simps =
  register_face_def capture_phase_def capture_body_def finish_registration_def
  registration_error_def session_at_exit_def samples_at_exit_def load_embeddings_def
  makedirs_def rmtree_def imwrite_def pickle_dump_def str_def str_nat.simps
  send_serial_command_def is_valid_face_def extract_face_embedding_def img_size_def
  REGISTRATION_DURATION_def MAX_REGISTRATION_IMAGES_def MIN_REGISTRATION_FACES_def
  env_three_def env_nine_def env_save_fails_def env_window_gone_def env_close_def
  env_nobody_def env_raises_def
  after_enrollment_def Let_def

subsection \<open>The flag of a running session\<close>

text \<open>
  C10: \<open>register_face\<close> sets \<open>registration_in_progress\<close> on entry, so that the flag is
  set in the state in which the loop ends, and the flag is cleared in the state in
  which the call returns, on every exit path. The call returns when the input holds an
  iteration at or after the time cap.
\<close>

theorem registration_flag_set_then_cleared:
  "(capture_phase env s = Some e \<longrightarrow> registration_in_progress (loop_state e))
   \<and> (register_face env s = Some (r, s') \<longrightarrow> \<not> registration_in_progress s')
   \<and> ((\<exists>tk \<in> set (ticks env). REGISTRATION_DURATION \<le> now tk - start env) \<longrightarrow>
        (\<exists>r s'. register_face env s = Some (r, s')))"
proof (intro conjI impI)
  assume "capture_phase env s = Some e"
  then have "same_globals (loop_state e) (s\<lparr>registration_in_progress := True\<rparr>)"
    by (rule capture_phase_globals)
  then show "registration_in_progress (loop_state e)"
    by (simp add: same_globals_def)
next
  assume "register_face env s = Some (r, s')"
  from register_face_cases [OF this] show "\<not> registration_in_progress s'"
  proof (elim disjE exE conjE)
    fix e
    assume "(r, s') = registration_error (''person_'' @ str (person_counter s)) (loop_state e)"
    then show ?thesis by (simp add: registration_error_def)
  next
    fix se s1
    assume fin: "(r, s') = finish_registration env (''Person_'' @ str (person_counter s))
                  (''person_'' @ str (person_counter s)) se s1"
    show ?thesis
    proof (cases r)
      case None
      with fin show ?thesis by (metis finish_registration_fail)
    next
      case (Some u)
      with fin show ?thesis by (metis finish_registration_commit)
    qed
  qed
next
  assume "\<exists>tk \<in> set (ticks env). REGISTRATION_DURATION \<le> now tk - start env"
  then have "capture_phase env s \<noteq> None" by (rule capture_phase_returns)
  then obtain e where "capture_phase env s = Some e" by blast
  then show "\<exists>r s'. register_face env s = Some (r, s')"
    by (cases e) (simp_all add: register_face_def Let_def prod_eq_iff)
qed

text \<open>
  C10 on the four exit paths from the initial state: commit, too few samples, save
  error, exception.
\<close>

theorem registration_flag_set_then_cleared_witness:
  "idle_tick 1008 \<in> set (ticks env_three)
   \<and> REGISTRATION_DURATION \<le> now (idle_tick 1008) - start env_three
   \<and> map_option (registration_in_progress \<circ> loop_state) (capture_phase env_three s_init) = Some True
   \<and> map_option fst (register_face env_three s_init) = Some (Some ''Person_1'')
   \<and> map_option (registration_in_progress \<circ> snd) (register_face env_three s_init) = Some False
   \<and> map_option fst (register_face env_nobody s_init) = Some None
   \<and> map_option (registration_in_progress \<circ> snd) (register_face env_nobody s_init) = Some False
   \<and> map_option fst (register_face env_save_fails s_init) = Some None
   \<and> map_option (registration_in_progress \<circ> snd) (register_face env_save_fails s_init) = Some False
   \<and> map_option fst (register_face env_raises s_init) = Some None
   \<and> map_option (registration_in_progress \<circ> snd) (register_face env_raises s_init) = Some False"
proof -
  have late: "idle_tick 1008 \<in> set (ticks env_three)"
    "REGISTRATION_DURATION \<le> now (idle_tick 1008) - start env_three"
    by (simp_all add: env_three_def idle_tick_def REGISTRATION_DURATION_def)
  then have "\<exists>tk \<in> set (ticks env_three). REGISTRATION_DURATION \<le> now tk - start env_three"
    by blast
  with registration_flag_set_then_cleared [of env_three s_init]
  obtain r s' where ret: "register_face env_three s_init = Some (r, s')"
    by blast
  have cleared: "map_option (registration_in_progress \<circ> snd) (register_face env s_init) = Some False"
    if "register_face env s_init \<noteq> None" for env
  proof -
    from that obtain r s' where "register_face env s_init = Some (r, s')" by auto
    with registration_flag_set_then_cleared [of env s_init _ r s'] show ?thesis by simp
  qed
  have during: "map_option (registration_in_progress \<circ> loop_state) (capture_phase env_three s_init) = Some True"
  proof -
    from ret obtain e where "capture_phase env_three s_init = Some e"
      by (auto simp: register_face_def Let_def split: option.splits)
    with registration_flag_set_then_cleared [of env_three s_init e] show ?thesis by simp
  qed
  have results: "map_option fst (register_face env_three s_init) = Some (Some ''Person_1'')"
    "map_option fst (register_face env_nobody s_init) = Some None"
    "map_option fst (register_face env_save_fails s_init) = Some None"
    "map_option fst (register_face env_raises s_init) = Some None"
    by (simp_all add: enrollment_simps examples_simps)
  then have "register_face env_three s_init \<noteq> None" "register_face env_nobody s_init \<noteq> None"
    "register_face env_save_fails s_init \<noteq> None" "register_face env_raises s_init \<noteq> None"
    by auto
  with late during results show ?thesis by (simp add: cleared)
qed

subsection \<open>Identity handles\<close>

text \<open>
  C2, as stated, fails. From the initial state a session commits \<open>Person_1\<close> under
  handle 1; after the reset the counter is 1 again, and the next session commits
  \<open>Person_1\<close> under handle 1: the handle issued after the reset is not greater than the
  one issued before.
\<close>

theorem handle_reused_after_reset_counterexample:
  "person_counter s_init = 1
   \<and> map_option fst (register_face env_three s_init) = Some (Some ''Person_1'')
   \<and> name_map (after_enrollment env_three s_init) 1 = Some ''Person_1''
   \<and> person_counter (after_enrollment env_three s_init) = 2
   \<and> person_counter (reset_all Acked (after_enrollment env_three s_init)) = 1
   \<and> map_option fst (register_face env_three (reset_all Acked (after_enrollment env_three s_init)))
       = Some (Some ''Person_1'')
   \<and> name_map (after_enrollment env_three (reset_all Acked (after_enrollment env_three s_init))) 1
       = Some ''Person_1''
   \<and> \<not> person_counter s_init
         < person_counter (reset_all Acked (after_enrollment env_three s_init))"
  by (simp add: enrollment_simps examples_simps reset_all_def)

text \<open>
  C2, amended: a committing session issues the current value of the counter as the
  handle and adds one to the counter; a session that does not commit leaves the counter
  and \<open>name_map\<close> as they are, and so do the verification cycle and every click but the
  one on the reset button; so handles grow strictly from one commit to the next as long
  as no reset comes between. The reset sets the counter to 1 and empties
  \<open>name_map\<close>, so the first identity committed after a reset gets handle 1 again.
\<close>

theorem handles_count_up_until_reset:
  "person_counter (reset_all reply s) = 1
   \<and> name_map (reset_all reply s) = Map.empty
   \<and> (register_face env s = Some (Some uid, s') \<longrightarrow>
        uid = ''Person_'' @ str (person_counter s)
        \<and> name_map s' = (name_map s)(person_counter s \<mapsto> uid)
        \<and> person_counter s' = person_counter s + 1)
   \<and> (register_face env s = Some (None, s') \<longrightarrow>
        person_counter s' = person_counter s \<and> name_map s' = name_map s)
   \<and> person_counter (snd (verification_cycle sim fr reply t (loc, s))) = person_counter s
   \<and> (is_button_clicked x y \<noteq> Some reset \<longrightarrow>
        person_counter (on_mouse lbuttondown x y reply s) = person_counter s)"
proof (intro conjI impI)
  show "person_counter (reset_all reply s) = 1" "name_map (reset_all reply s) = Map.empty"
    by (simp_all add: reset_all_def Let_def send_serial_command_fields)
next
  show "person_counter (snd (verification_cycle sim fr reply t (loc, s))) = person_counter s"
    by (simp add: verification_cycle_def Let_def split_beta verify_face_fields
        send_serial_command_fields)
next
  assume "is_button_clicked x y \<noteq> Some reset"
  then show "person_counter (on_mouse lbuttondown x y reply s) = person_counter s"
    by (simp add: on_mouse_def Let_def send_serial_command_fields
        split: option.splits button.splits)
next
  assume run: "register_face env s = Some (Some uid, s')"
  from register_face_cases [OF run] obtain se s1
    where phase: "capture_phase env s = Some (Completed se s1)"
      and fin: "finish_registration env (''Person_'' @ str (person_counter s))
                  (''person_'' @ str (person_counter s)) se s1 = (Some uid, s')"
    by (auto simp: registration_error_def)
  from capture_phase_globals [OF phase]
  have same: "person_counter s1 = person_counter s" "name_map s1 = name_map s"
    by (simp_all add: same_globals_def)
  from finish_registration_commit [OF fin] same
  show "uid = ''Person_'' @ str (person_counter s)"
    "name_map s' = (name_map s)(person_counter s \<mapsto> uid)"
    "person_counter s' = person_counter s + 1"
    by simp_all
next
  assume run: "register_face env s = Some (None, s')"
  from register_face_cases [OF run]
  have "person_counter s' = person_counter s \<and> name_map s' = name_map s"
  proof (elim disjE exE conjE)
    fix e
    assume phase: "capture_phase env s = Some e"
      and "(None, s') = registration_error (''person_'' @ str (person_counter s)) (loop_state e)"
    then have "person_counter s' = person_counter (loop_state e)"
      "name_map s' = name_map (loop_state e)"
      by (simp_all add: registration_error_def)
    with capture_phase_globals [OF phase] show ?thesis
      by (simp add: same_globals_def)
  next
    fix se s1
    assume phase: "capture_phase env s = Some (Completed se s1)"
      and "(None, s') = finish_registration env (''Person_'' @ str (person_counter s))
                  (''person_'' @ str (person_counter s)) se s1"
    then have "finish_registration env (''Person_'' @ str (person_counter s))
                  (''person_'' @ str (person_counter s)) se s1 = (None, s')"
      by simp
    from finish_registration_fail [OF this] capture_phase_globals [OF phase] show ?thesis
      by (simp add: same_globals_def)
  qed
  then show "person_counter s' = person_counter s" "name_map s' = name_map s" by simp_all
qed

text \<open>
  The amended C2 on a committing session and on one with too few samples, both from the
  initial state.
\<close>

theorem handles_count_up_until_reset_witness:
  "map_option fst (register_face env_three s_init) = Some (Some ''Person_1'')
   \<and> person_counter (after_enrollment env_three s_init) = person_counter s_init + 1
   \<and> name_map (after_enrollment env_three s_init) = (name_map s_init)(1 \<mapsto> ''Person_1'')
   \<and> map_option fst (register_face env_nobody s_init) = Some None
   \<and> person_counter (after_enrollment env_nobody s_init) = person_counter s_init
   \<and> name_map (after_enrollment env_nobody s_init) = name_map s_init
   \<and> person_counter (reset_all Acked (after_enrollment env_three s_init)) = 1
   \<and> is_button_clicked 1000 75 = Some saved_faces
   \<and> person_counter (on_mouse True 1000 75 Acked s_init) = person_counter s_init"
proof -
  have results: "map_option fst (register_face env_three s_init) = Some (Some ''Person_1'')"
    "map_option fst (register_face env_nobody s_init) = Some None"
    by (simp_all add: enrollment_simps examples_simps)
  have click: "is_button_clicked 1000 75 = Some saved_faces"
    by (simp add: is_button_clicked_def)
  from handles_count_up_until_reset [of Acked s_init _ _ _ _ _ _ _ 1000 75 True] click
  have d: "person_counter (on_mouse True 1000 75 Acked s_init) = person_counter s_init"
    by simp
  from results(1) obtain s3 where r3: "register_face env_three s_init = Some (Some ''Person_1'', s3)"
    by auto
  from results(2) obtain s0 where r0: "register_face env_nobody s_init = Some (None, s0)"
    by auto
  have pc: "person_counter s_init = 1" by (simp add: s_init_def)
  from handles_count_up_until_reset [of Acked s_init env_three "''Person_1''" s3] r3 pc
  have a: "person_counter s3 = person_counter s_init + 1"
    "name_map s3 = (name_map s_init)(1 \<mapsto> ''Person_1'')"
    by simp_all
  from handles_count_up_until_reset [of Acked s_init env_nobody _ s0] r0
  have b: "person_counter s0 = person_counter s_init" "name_map s0 = name_map s_init"
    by simp_all
  from handles_count_up_until_reset [of Acked "after_enrollment env_three s_init"]
  have c: "person_counter (reset_all Acked (after_enrollment env_three s_init)) = 1"
    by simp
  from r3 r0 a b c d click results show ?thesis by (simp add: after_enrollment_def)
qed

subsection \<open>The directory of the session\<close>

lemma map_of_update_entries:
  "map_of (map (\<lambda>(n, e). if n = name then (n, f e) else (n, e)) fs0) k =
     (if k = name then map_option f (map_of fs0 k) else map_of fs0 k)"
  by (induction fs0) auto

lemma is_dir_add_image: "is_dir (add_image img e) = is_dir e"
  by (cases e) simp_all

lemma dir_present_makedirs:
  assumes "makedirs name fs0 = Some fs1"
  shows "dir_present name fs1"
proof (cases "map_of fs0 name")
  case None
  with assms have "fs1 = fs0 @ [(name, Directory \<lparr>images = [], embeddings_pkl = None\<rparr>)]"
    by (simp add: makedirs_def)
  with None show ?thesis by (simp add: dir_present_def map_add_def)
next
  case (Some e)
  with assms show ?thesis
    by (cases e) (simp_all add: makedirs_def dir_present_def)
qed

lemma dir_present_imwrite:
  "dir_present name (imwrite name' img fs0) = dir_present name fs0"
  by (simp add: dir_present_def imwrite_def map_of_update_entries is_dir_add_image
      split: option.splits)

lemma capture_loop_dir_present:
  assumes run: "capture_loop st ud tks se s = Some (Completed se' s')"
    and dir: "dir_present name (saved_names s)"
  shows "dir_present name (saved_names s')"
proof -
  have "case Completed se' s' of
          Completed se2 s2 \<Rightarrow> dir_present name (saved_names s2) | Exception s2 \<Rightarrow> True"
    using run
  proof (rule capture_loop_rule [where Q = "\<lambda>s. True"
        and P = "\<lambda>se s. dir_present name (saved_names s)"])
    show "dir_present name (saved_names s)" by (rule dir)
  next
    fix tk fr se0 s0 se1 s1
    assume "dir_present name (saved_names s0)" and "capture_body ud tk fr se0 s0 = Next se1 s1"
    then show "dir_present name (saved_names s1)"
      by (auto dest!: capture_body_cases simp: dir_present_imwrite)
  qed simp
  then show ?thesis by simp
qed

lemma load_embeddings_pickle_dump:
  assumes "dir_present name fs0" and "saved_names s = pickle_dump name embs fs0"
  shows "load_embeddings name s = Some embs"
proof -
  from assms(1) obtain d where "map_of fs0 name = Some (Directory d)"
    by (auto simp: dir_present_def split: option.splits elim: is_dir.elims)
  with assms(2) show ?thesis
    by (simp add: load_embeddings_def pickle_dump_def map_of_update_entries)
qed

lemma capture_phase_Completed:
  assumes "capture_phase env s = Some (Completed se s1)"
  shows "\<exists>fs1. makedirs (''person_'' @ str (person_counter s)) (saved_names s) = Some fs1
     \<and> capture_loop (start env) (''person_'' @ str (person_counter s)) (ticks env)
          \<lparr>faces = [], embeddings = [], last_capture = 0, captures = []\<rparr>
          (s\<lparr>registration_in_progress := True, saved_names := fs1\<rparr>) = Some (Completed se s1)"
  using assms by (simp add: capture_phase_def Let_def split: option.splits)

lemma capture_phase_dir_present:
  assumes "capture_phase env s = Some (Completed se s1)"
  shows "dir_present (''person_'' @ str (person_counter s)) (saved_names s1)"
proof -
  from capture_phase_Completed [OF assms] obtain fs1
    where mk: "makedirs (''person_'' @ str (person_counter s)) (saved_names s) = Some fs1"
      and run: "capture_loop (start env) (''person_'' @ str (person_counter s)) (ticks env)
          \<lparr>faces = [], embeddings = [], last_capture = 0, captures = []\<rparr>
          (s\<lparr>registration_in_progress := True, saved_names := fs1\<rparr>) = Some (Completed se s1)"
    by blast
  from dir_present_makedirs [OF mk] capture_loop_dir_present [OF run] show ?thesis by simp
qed

lemma capture_phase_lengths:
  assumes "capture_phase env s = Some (Completed se s1)"
  shows "length (faces se) = length (embeddings se) \<and> map snd (captures se) = embeddings se"
proof -
  from capture_phase_Completed [OF assms] obtain fs1
    where "capture_loop (start env) (''person_'' @ str (person_counter s)) (ticks env)
          \<lparr>faces = [], embeddings = [], last_capture = 0, captures = []\<rparr>
          (s\<lparr>registration_in_progress := True, saved_names := fs1\<rparr>) = Some (Completed se s1)"
    by blast
  then show ?thesis by (rule capture_loop_lengths) simp
qed

subsection \<open>Commit\<close>

text \<open>
  C3, as stated, fails: a session that ends with three samples, the minimum, does not
  commit when writing \<open>embeddings.pkl\<close> raises; it returns \<open>None\<close> and removes its
  directory.
\<close>

theorem enough_samples_without_commit_counterexample:
  "samples_at_exit env_save_fails s_init = Some 3
   \<and> MIN_REGISTRATION_FACES \<le> 3
   \<and> map_option fst (register_face env_save_fails s_init) = Some None
   \<and> get_face_count (after_enrollment env_save_fails s_init) = 0
   \<and> person_counter (after_enrollment env_save_fails s_init) = 1"
  by (simp add: enrollment_simps examples_simps get_face_count_def)

lemma samples_at_exit_Completed:
  "capture_phase env s = Some (Completed se s1) \<Longrightarrow>
     session_at_exit env s = Some se \<and> samples_at_exit env s = Some (length (faces se))"
  by (simp add: samples_at_exit_def session_at_exit_def)

lemma samples_at_exit_Exception:
  "capture_phase env s = Some (Exception s1) \<Longrightarrow>
     session_at_exit env s = None \<and> samples_at_exit env s = None"
  by (simp add: samples_at_exit_def session_at_exit_def)

text \<open>
  C3, amended: a session commits a new identity if and only if its loop ends without an
  exception with at least \<open>MIN_REGISTRATION_FACES\<close> collected samples, closing the window
  does not raise, and writing \<open>embeddings.pkl\<close> succeeds. This holds of every session
  that returns, so no session commits with fewer samples. On commit the file holds all
  collected embeddings, which are the embeddings of the accepted samples in the order of
  capture; in particular a session that ends with nine samples, in which closing the
  window does not raise and the write succeeds, commits with nine embeddings. A session
  whose loop ends without an exception returns.
\<close>

theorem commit_iff_enough_samples_and_saved:
  "(register_face env s = Some (r, s') \<longrightarrow>
      (r \<noteq> None \<longleftrightarrow>
         (\<exists>n. samples_at_exit env s = Some n \<and> MIN_REGISTRATION_FACES \<le> n)
         \<and> \<not> destroy_raises env \<and> dump_ok env)
      \<and> (r \<noteq> None \<longrightarrow>
           r = Some (''Person_'' @ str (person_counter s))
           \<and> (\<exists>se. session_at_exit env s = Some se
                \<and> load_embeddings (''person_'' @ str (person_counter s)) s'
                    = Some (embeddings se)))
      \<and> (samples_at_exit env s = Some 9 \<and> \<not> destroy_raises env \<and> dump_ok env \<longrightarrow>
           r \<noteq> None
           \<and> map_option length (load_embeddings (''person_'' @ str (person_counter s)) s')
               = Some 9))
   \<and> (session_at_exit env s = Some se \<longrightarrow>
        length (embeddings se) = length (faces se)
        \<and> embeddings se = map snd (captures se)
        \<and> register_face env s \<noteq> None)"
proof (intro conjI impI)
  let ?uid = "''Person_'' @ str (person_counter s)"
  let ?ud = "''person_'' @ str (person_counter s)"
  assume run: "register_face env s = Some (r, s')"
  then obtain e where phase: "capture_phase env s = Some e"
    by (auto simp: register_face_def Let_def split: option.splits)
  have all: "(r \<noteq> None \<longleftrightarrow>
         (\<exists>n. samples_at_exit env s = Some n \<and> MIN_REGISTRATION_FACES \<le> n)
         \<and> \<not> destroy_raises env \<and> dump_ok env)
      \<and> (r \<noteq> None \<longrightarrow>
           r = Some ?uid
           \<and> (\<exists>se. session_at_exit env s = Some se
                \<and> load_embeddings ?ud s' = Some (embeddings se)))"
  proof (cases e)
    case (Exception s1)
    with run phase have "r = None"
      by (simp add: register_face_def Let_def registration_error_def)
    with samples_at_exit_Exception Exception phase show ?thesis by simp
  next
    case (Completed se1 s1)
    with phase have ended: "capture_phase env s = Some (Completed se1 s1)" by simp
    note obs = samples_at_exit_Completed [OF ended]
    show ?thesis
    proof (cases "destroy_raises env")
      case True
      with run ended have "r = None"
        by (simp add: register_face_def Let_def registration_error_def)
      with True show ?thesis by simp
    next
      case False
      with run ended have fin: "finish_registration env ?uid ?ud se1 s1 = (r, s')"
        by (simp add: register_face_def Let_def)
      have res: "r = (if MIN_REGISTRATION_FACES \<le> length (faces se1) \<and> dump_ok env
                      then Some ?uid else None)"
        using finish_registration_result [of env ?uid ?ud se1 s1] fin by simp
      have stored: "load_embeddings ?ud s' = Some (embeddings se1)" if "r \<noteq> None"
      proof -
        from that obtain u where "r = Some u" by auto
        with fin have "saved_names s' = pickle_dump ?ud (embeddings se1) (saved_names s1)"
          using finish_registration_commit [of env ?uid ?ud se1 s1 u s'] by simp
        with capture_phase_dir_present [OF ended] show ?thesis
          by (rule load_embeddings_pickle_dump)
      qed
      from False res obs stored show ?thesis by auto
    qed
  qed
  from all show "r \<noteq> None \<longleftrightarrow>
         (\<exists>n. samples_at_exit env s = Some n \<and> MIN_REGISTRATION_FACES \<le> n)
         \<and> \<not> destroy_raises env \<and> dump_ok env"
    by blast
  {
    assume "r \<noteq> None"
    with all show "r = Some ?uid"
      "\<exists>se. session_at_exit env s = Some se \<and> load_embeddings ?ud s' = Some (embeddings se)"
      by blast+
  }
  assume nine: "samples_at_exit env s = Some 9 \<and> \<not> destroy_raises env \<and> dump_ok env"
  with all show committed: "r \<noteq> None"
    by (simp add: MIN_REGISTRATION_FACES_def)
  with all obtain se1 where se1: "session_at_exit env s = Some se1"
    "load_embeddings ?ud s' = Some (embeddings se1)"
    by blast
  from se1(1) obtain s1 where ended: "capture_phase env s = Some (Completed se1 s1)"
    by (auto simp: session_at_exit_def split: option.splits loop_end.splits)
  from nine se1(1) have "length (faces se1) = 9"
    by (simp add: samples_at_exit_def)
  with capture_phase_lengths [OF ended] se1(2)
  show "map_option length (load_embeddings ?ud s') = Some 9" by simp
next
  assume "session_at_exit env s = Some se"
  then obtain s1 where ended: "capture_phase env s = Some (Completed se s1)"
    by (auto simp: session_at_exit_def split: option.splits loop_end.splits)
  from capture_phase_lengths [OF ended]
  show "length (embeddings se) = length (faces se)" "embeddings se = map snd (captures se)"
    by simp_all
  from ended show "register_face env s \<noteq> None"
    by (simp add: register_face_def Let_def)
qed

text \<open>
  The amended C3 on the session of nine samples, 0.6 s apart, from the initial state:
  it commits \<open>Person_1\<close>, and the file holds the nine embeddings in the order of capture.
  The session of three samples does not commit when closing the window raises.
\<close>

theorem commit_iff_enough_samples_and_saved_witness:
  "samples_at_exit env_nine s_init = Some 9
   \<and> \<not> destroy_raises env_nine
   \<and> dump_ok env_nine
   \<and> map_option fst (register_face env_nine s_init) = Some (Some ''Person_1'')
   \<and> load_embeddings ''person_1'' (after_enrollment env_nine s_init)
       = Some [[1], [2], [3], [4], [5], [6], [7], [8], [9]]
   \<and> map_option (map snd \<circ> captures) (session_at_exit env_nine s_init)
       = Some [[1], [2], [3], [4], [5], [6], [7], [8], [9]]
   \<and> samples_at_exit env_window_gone s_init = Some 3
   \<and> destroy_raises env_window_gone
   \<and> map_option fst (register_face env_window_gone s_init) = Some None"
proof -
  have ev: "samples_at_exit env_nine s_init = Some 9" "\<not> destroy_raises env_nine"
    "dump_ok env_nine"
    "map_option (map snd \<circ> captures) (session_at_exit env_nine s_init)
       = Some [[1], [2], [3], [4], [5], [6], [7], [8], [9]]"
    "samples_at_exit env_window_gone s_init = Some 3" "destroy_raises env_window_gone"
    by (simp_all add: enrollment_simps examples_simps)
  have res: "map_option fst (register_face env_nine s_init) = Some (Some ''Person_1'')"
    "map_option fst (register_face env_window_gone s_init) = Some None"
    by (simp_all add: enrollment_simps examples_simps)
  from res(1) obtain s' where run: "register_face env_nine s_init = Some (Some ''Person_1'', s')"
    by auto
  from ev(4) obtain se where se: "session_at_exit env_nine s_init = Some se"
    "map snd (captures se) = [[1], [2], [3], [4], [5], [6], [7], [8], [9]]"
    by auto
  have pc: "str (person_counter s_init) = ''1''"
    by (simp add: s_init_def str_def str_nat.simps)
  from commit_iff_enough_samples_and_saved [of env_nine s_init "Some ''Person_1''" s' se]
    run se pc
  have stored: "load_embeddings ''person_1'' s' = Some [[1], [2], [3], [4], [5], [6], [7], [8], [9]]"
    by auto
  from res(2) obtain s3 where run3: "register_face env_window_gone s_init = Some (None, s3)"
    by auto
  from commit_iff_enough_samples_and_saved [of env_window_gone s_init None s3] run3 ev(5)
  have "destroy_raises env_window_gone \<or> \<not> dump_ok env_window_gone"
    by (auto simp: MIN_REGISTRATION_FACES_def)
  with run run3 stored res ev show ?thesis by (simp add: after_enrollment_def)
qed

subsection \<open>Spacing of captures\<close>

lemma capture_phase_session_inv:
  assumes phase: "capture_phase env s = Some (Completed se s1)"
    and clock: "\<forall>tk \<in> set (ticks env). t_check tk \<le> t_capture tk"
  shows "session_inv se"
proof -
  from capture_phase_Completed [OF phase] obtain fs1
    where "capture_loop (start env) (''person_'' @ str (person_counter s)) (ticks env)
          \<lparr>faces = [], embeddings = [], last_capture = 0, captures = []\<rparr>
          (s\<lparr>registration_in_progress := True, saved_names := fs1\<rparr>) = Some (Completed se s1)"
    by blast
  then show ?thesis using session_inv_init clock by (rule capture_loop_session_inv)
qed

text \<open>
  C6: in a session, every accepted capture is recorded more than half a second after
  every earlier accepted capture of the session, given that the clock does not step back
  between the spacing test and the assignment of \<open>last_capture\<close> in one iteration. The
  recorded captures are the collected samples, one to one and in order. A candidate that
  arrives half a second or less after the last recorded capture is dropped: the body
  leaves the session and the globals as they were.
\<close>

theorem accepted_captures_spaced:
  "(capture_phase env s = Some (Completed se s1)
      \<and> (\<forall>tk \<in> set (ticks env). t_check tk \<le> t_capture tk) \<longrightarrow>
        spaced (map fst (captures se))
        \<and> map snd (captures se) = embeddings se
        \<and> length (faces se) = length (embeddings se))
   \<and> (t_check tk - last_capture se0 \<le> 0.5
      \<and> capture_body user_dir tk fr se0 s0 = Next se2 s2 \<longrightarrow>
        se2 = se0 \<and> s2 = s0)"
proof (intro conjI impI)
  assume "capture_phase env s = Some (Completed se s1)
      \<and> (\<forall>tk \<in> set (ticks env). t_check tk \<le> t_capture tk)"
  then have "session_inv se" by (blast intro: capture_phase_session_inv)
  then show "spaced (map fst (captures se))" "map snd (captures se) = embeddings se"
    "length (faces se) = length (embeddings se)"
    by (simp_all add: session_inv_def)
next
  assume a: "t_check tk - last_capture se0 \<le> 0.5
      \<and> capture_body user_dir tk fr se0 s0 = Next se2 s2"
  then have "capture_body user_dir tk fr se0 s0 = Next se2 s2" by simp
  from capture_body_cases [OF this] a show "se2 = se0" "s2 = s0" by auto
qed

text \<open>
  C6 on a session with four candidates, of which the second arrives 0.3 s after the
  first capture was recorded: three captures are recorded, spaced, and the second
  candidate leaves the session as it was.
\<close>

theorem accepted_captures_spaced_witness:
  "list_all (\<lambda>tk. t_check tk \<le> t_capture tk) (ticks env_close)
   \<and> map_option captures (session_at_exit env_close s_init)
       = Some [(1000.65, [1]), (1001.55, [3]), (1002.15, [4])]
   \<and> spaced [1000.65, 1001.55, 1002.15]
   \<and> t_check (sample_tick 1000.95 [2]) - last_capture session_one = 0.3
   \<and> capture_body ''person_1'' (sample_tick 1000.95 [2]) (one_face [2]) session_one s_init
       = Next session_one s_init"
proof -
  have clock: "\<forall>tk \<in> set (ticks env_close). t_check tk \<le> t_capture tk"
    by (simp add: env_close_def sample_tick_def idle_tick_def)
  have ev: "map_option captures (session_at_exit env_close s_init)
       = Some [(1000.65, [1]), (1001.55, [3]), (1002.15, [4])]"
    by (simp add: enrollment_simps examples_simps)
  then obtain se s1 where phase: "capture_phase env_close s_init = Some (Completed se s1)"
    by (auto simp: session_at_exit_def split: option.splits loop_end.splits)
  with ev have se: "captures se = [(1000.65, [1]), (1001.55, [3]), (1002.15, [4])]"
    by (simp add: session_at_exit_def)
  have gap: "t_check (sample_tick 1000.95 [2]) - last_capture session_one = 0.3"
    by (simp add: sample_tick_def session_one_def)
  have body:
    "capture_body ''person_1'' (sample_tick 1000.95 [2]) (one_face [2]) session_one s_init
       = Next session_one s_init"
    by (simp add: enrollment_simps examples_simps)
  from accepted_captures_spaced
    [of env_close s_init se s1 "sample_tick 1000.95 [2]" session_one "''person_1''"
        "one_face [2]" s_init session_one s_init]
    phase clock se gap body
  have "spaced [1000.65, 1001.55, 1002.15]"
    by simp
  with clock ev gap body show ?thesis by (simp add: list_all_iff)
qed

subsection \<open>Failed sessions and the saved identities\<close>

lemma imwrite_absent: "map_of fs0 name = None \<Longrightarrow> imwrite name img fs0 = fs0"
  by (induction fs0) (auto simp: imwrite_def split: if_splits)

lemma rmtree_absent: "map_of fs0 name = None \<Longrightarrow> rmtree name fs0 = fs0"
  by (induction fs0) (auto simp: rmtree_def split: if_splits)

lemma imwrite_own_directory:
  "map_of fs0 name = None \<Longrightarrow>
     \<exists>d'. imwrite name img (fs0 @ [(name, Directory d)]) = fs0 @ [(name, Directory d')]"
  using imwrite_absent [of fs0 name img] by (simp add: imwrite_def)

lemma rmtree_own_directory:
  "map_of fs0 name = None \<Longrightarrow> rmtree name (fs0 @ [(name, Directory d)]) = fs0"
  using rmtree_absent [of fs0 name] by (simp add: rmtree_def)

text \<open>
  The loop writes into the directory of the session only: when that directory is new,
  the entries that were there before stay in front of it, as they were.
\<close>

lemma capture_loop_own_directory:
  assumes run: "capture_loop st ud tks se s = Some e"
    and fresh: "map_of fs0 ud = None"
    and own: "\<exists>d. saved_names s = fs0 @ [(ud, Directory d)]"
  shows "\<exists>d. saved_names (loop_state e) = fs0 @ [(ud, Directory d)]"
proof -
  have "case e of
          Completed se2 s2 \<Rightarrow> \<exists>d. saved_names s2 = fs0 @ [(ud, Directory d)]
        | Exception s2 \<Rightarrow> \<exists>d. saved_names s2 = fs0 @ [(ud, Directory d)]"
    using run
  proof (rule capture_loop_rule [where P = "\<lambda>se s. \<exists>d. saved_names s = fs0 @ [(ud, Directory d)]"])
    show "\<exists>d. saved_names s = fs0 @ [(ud, Directory d)]" by (rule own)
  next
    fix tk fr se0 s0 se1 s1
    assume "\<exists>d. saved_names s0 = fs0 @ [(ud, Directory d)]"
      and "capture_body ud tk fr se0 s0 = Next se1 s1"
    then show "\<exists>d. saved_names s1 = fs0 @ [(ud, Directory d)]"
      using imwrite_own_directory [OF fresh] by (auto dest!: capture_body_cases)
  next
    fix tk fr se0 s0 s1
    assume "\<exists>d. saved_names s0 = fs0 @ [(ud, Directory d)]"
      and "capture_body ud tk fr se0 s0 = Raised s1"
    then show "\<exists>d. saved_names s1 = fs0 @ [(ud, Directory d)]"
      using imwrite_own_directory [OF fresh]
      by (auto simp: capture_body_def Let_def split: option.splits list.splits if_splits prod.splits)
  qed
  then show ?thesis by (cases e) simp_all
qed

text \<open>
  A session that does not commit is atomic when its directory is new: it returns
  \<open>None\<close> and leaves the saved directory, the counter and \<open>name_map\<close> as they were.
\<close>

lemma failed_enrollment_new_directory:
  assumes run: "register_face env s = Some (None, s')"
    and fresh: "map_of (saved_names s) (''person_'' @ str (person_counter s)) = None"
  shows "saved_names s' = saved_names s \<and> person_counter s' = person_counter s
     \<and> name_map s' = name_map s \<and> \<not> registration_in_progress s'"
proof -
  let ?ud = "''person_'' @ str (person_counter s)"
  let ?fs1 = "saved_names s @ [(?ud, Directory \<lparr>images = [], embeddings_pkl = None\<rparr>)]"
  from fresh have mk: "makedirs ?ud (saved_names s) = Some ?fs1"
    by (simp add: makedirs_def)
  obtain e where phase: "capture_phase env s = Some e"
    using run by (auto simp: register_face_def Let_def split: option.splits)
  with mk have "capture_loop (start env) ?ud (ticks env)
          \<lparr>faces = [], embeddings = [], last_capture = 0, captures = []\<rparr>
          (s\<lparr>registration_in_progress := True, saved_names := ?fs1\<rparr>) = Some e"
    by (simp add: capture_phase_def Let_def)
  from capture_loop_own_directory [OF this fresh]
  obtain d where own: "saved_names (loop_state e) = saved_names s @ [(?ud, Directory d)]"
    by auto
  then have removed: "rmtree ?ud (saved_names (loop_state e)) = saved_names s"
    using rmtree_own_directory [OF fresh] by simp
  from capture_phase_globals [OF phase]
  have same: "person_counter (loop_state e) = person_counter s"
    "name_map (loop_state e) = name_map s"
    by (simp_all add: same_globals_def)
  show ?thesis
  proof (cases e)
    case (Exception s1)
    with run phase have "s' = snd (registration_error ?ud s1)"
      by (simp add: register_face_def Let_def)
    with Exception removed same show ?thesis by (simp add: registration_error_def)
  next
    case (Completed se s1)
    show ?thesis
    proof (cases "destroy_raises env")
      case True
      with Completed run phase have "s' = snd (registration_error ?ud s1)"
        by (simp add: register_face_def Let_def)
      with Completed removed same show ?thesis by (simp add: registration_error_def)
    next
      case False
      with Completed run phase
      have "finish_registration env (''Person_'' @ str (person_counter s)) ?ud se s1 = (None, s')"
        by (simp add: register_face_def Let_def)
      from finish_registration_fail [OF this] Completed removed same show ?thesis by simp
    qed
  qed
qed

text \<open>
  C9 fails on the code when the directory of the session is not new. A process that
  starts over a saved \<open>person_1\<close> has the counter at 1 again; a session in which nobody
  shows up collects no sample, returns \<open>None\<close>, and removes \<open>person_1\<close>: the identity that
  was accepted before the session is rejected after it.
\<close>

theorem failed_enrollment_removes_saved_identity:
  "person_counter s_restarted = 1
   \<and> get_face_count s_restarted = 1
   \<and> load_embeddings ''person_1'' s_restarted = Some [[1, 0], [1, 0], [1, 0]]
   \<and> fst (verify_face dot_sim (one_face [1, 0]) s_restarted)
       = (True, Some (10, 10, 100, 100), Some 100)
   \<and> samples_at_exit env_nobody s_restarted = Some 0
   \<and> map_option fst (register_face env_nobody s_restarted) = Some None
   \<and> saved_names (after_enrollment env_nobody s_restarted) = []
   \<and> get_face_count (after_enrollment env_nobody s_restarted) = 0
   \<and> load_embeddings ''person_1'' (after_enrollment env_nobody s_restarted) = None
   \<and> fst (verify_face dot_sim (one_face [1, 0]) (after_enrollment env_nobody s_restarted))
       = (False, Some (10, 10, 100, 100), Some 0)"
  by (simp add: enrollment_simps examples_simps verify_face_def CONFIDENCE_THRESHOLD_def
      get_face_count_def)

end
